theory Spec2Isabelle
  imports
    Main
    "HOL-Library.Word"
    "HOL-Library.Char_ord"
    "HOL-Library.List_Lexorder"
begin

unbundle bit_operations_syntax

section \<open>Data model\<close>

text \<open>
  Go byte slices and Go strings are both sequences of bytes, and the store converts freely
  between them (\<^verbatim>\<open>[]byte(svc)\<close>, \<^verbatim>\<open>string(monthKey)\<close>). Both are lists of 8-bit
  characters here; the order on them is the bytewise lexicographic one of
  \<^verbatim>\<open>bytes.Compare\<close> and of Go's string comparison.
\<close>

type_synonym bytes = "char list"

text \<open>An instant: nanoseconds since the Unix epoch (negative before 1970), read in UTC.\<close>

type_synonym Time = int

datatype error =
    ErrDatabaseNotOpen
  | ErrBucketNameRequired
  | ErrBucketNotFound
  | ErrIncompatibleValue
  | ErrKeyRequired
  | ErrKeyTooLarge
  | ErrValueTooLarge
  | ErrBigTime
  | ErrEOF
  | ErrUnexpectedEOF
  | ErrZlib
  | ErrProto
  | ErrNoSpanInEntry
  | ErrParse
  | Wrapped string error

subsection \<open>The OTLP messages the store reads\<close>

datatype AnyValue =
    StringValue string
  | BoolValue bool
  | IntValue "64 word"
  | DoubleValue "64 word"
  | ArrayValue "AnyValue list"
  | KvlistValue "(string \<times> AnyValue) list"
  | BytesValue bytes
  | NoValue

text \<open>\<^verbatim>\<open>KeyValue.Value\<close> is a pointer: \<open>None\<close> is the nil pointer.\<close>

record KeyValue =
  Key :: string
  Value :: "AnyValue option"

record Resource =
  Attributes :: "KeyValue list"

record Status =
  Message :: string
  Code :: "32 word"

record Span =
  TraceId :: bytes
  SpanId :: bytes
  ParentSpanId :: bytes
  Name :: string
  StartTimeUnixNano :: "64 word"
  EndTimeUnixNano :: "64 word"
  Status :: "Status option"

record ScopeSpans =
  Scope :: "string option"
  Spans :: "Span list"
  ScopeSchemaUrl :: string

record ResourceSpans =
  Resource :: "Resource option"
  ScopeSpans :: "ScopeSpans list"
  SchemaUrl :: string

section \<open>Time\<close>

text \<open>
  The store uses Go's \<^verbatim>\<open>time\<close> package for calendar arithmetic, in UTC everywhere
  but for the cutoff of the retention cleanup, which is taken in the local zone. The
  package is modelled by its contract on the proleptic Gregorian calendar. Months are counted by the
  index \<open>12 * year + (month - 1)\<close>; \<open>month_start k\<close> is the day number (days since
  1970-01-01) of the first day of month \<open>k\<close>.
\<close>

definition Minute :: int where
  "Minute = 60000000000"

definition nsPerDay :: int where
  "nsPerDay = 86400000000000"

definition month_start :: "int \<Rightarrow> int" where
  "month_start k =
     (let j = k - 2; y = j div 12; mp = j mod 12
      in 365 * y + y div 4 - y div 100 + y div 400 + (153 * mp + 2) div 5 - 719468)"

lemma month_start_alt:
  "0 \<le> mp \<Longrightarrow> mp < 12 \<Longrightarrow>
   month_start (12 * y + mp + 2) =
     365 * y + y div 4 - y div 100 + y div 400 + (153 * mp + 2) div 5 - 719468"
  by (simp add: month_start_def Let_def div_pos_pos_trivial mod_pos_pos_trivial)

lemma year_end_arith:
  fixes y a b c a' b' c' :: int
  shows "a \<le> a' \<Longrightarrow> b' \<le> b + 1 \<Longrightarrow> c \<le> c' \<Longrightarrow>
     365 * y + a - b + c + 337 - 719468 < 365 * (y + 1) + a' - b' + c' + 0 - 719468"
  by simp

lemma month_start_step: "month_start k < month_start (k + 1)"
proof -
  define y where "y = (k - 2) div 12"
  define mp where "mp = (k - 2) mod 12"
  have k: "k = 12 * y + mp + 2" and mp: "0 \<le> mp" "mp < 12"
    by (simp_all add: y_def mp_def)
  show ?thesis
  proof (cases "mp = 11")
    case True
    have a: "month_start k = 365 * y + y div 4 - y div 100 + y div 400 + 337 - 719468"
      using month_start_alt[of 11 y] by (simp add: k True)
    have "k + 1 = 12 * (y + 1) + 0 + 2" by (simp add: k True)
    then have b: "month_start (k + 1) =
        365 * (y + 1) + (y + 1) div 4 - (y + 1) div 100 + (y + 1) div 400 + 0 - 719468"
      using month_start_alt[of 0 "y + 1"] by simp
    have "y div 4 \<le> (y + 1) div 4" "(y + 1) div 100 \<le> y div 100 + 1"
      "y div 400 \<le> (y + 1) div 400"
      by linarith+
    then show ?thesis unfolding a b by (rule year_end_arith)
  next
    case False
    then have m1: "0 \<le> mp + 1" "mp + 1 < 12" using mp by linarith+
    have a: "month_start k =
        365 * y + y div 4 - y div 100 + y div 400 + (153 * mp + 2) div 5 - 719468"
      using month_start_alt[OF mp, of y] by (simp add: k)
    have "k + 1 = 12 * y + (mp + 1) + 2" by (simp add: k)
    then have b: "month_start (k + 1) =
        365 * y + y div 4 - y div 100 + y div 400 + (153 * (mp + 1) + 2) div 5 - 719468"
      using month_start_alt[OF m1, of y] by simp
    have "(153 * mp + 2) div 5 < (153 * (mp + 1) + 2) div 5" by (simp add: algebra_simps)
    then show ?thesis unfolding a b by linarith
  qed
qed

text \<open>
  The month a day number \<open>z\<close> falls in is the \<open>k\<close> with
  \<open>month_start k \<le> z < month_start (k + 1)\<close>, found from an estimate by stepping.
\<close>

function month_search :: "int \<Rightarrow> int \<Rightarrow> int" where
  "month_search z k =
     (if z < month_start k then month_search z (k - 1)
      else if month_start (k + 1) \<le> z then month_search z (k + 1)
      else k)"
  by pat_completeness auto
termination
proof (relation "measures [\<lambda>(z, k). if z < month_start k then 1 else 0,
                          \<lambda>(z, k). nat \<bar>z - month_start k\<bar>]")
  show "wf (measures [\<lambda>(z, k). if z < month_start k then 1 else 0,
                      \<lambda>(z, k). nat \<bar>z - month_start k\<bar>])"
    by simp
next
  fix z k :: int
  assume "z < month_start k"
  moreover have "month_start (k - 1) < month_start k"
    using month_start_step[of "k - 1"] by simp
  ultimately show "((z, k - 1), (z, k)) \<in>
      measures [\<lambda>(z, k). if z < month_start k then 1 else 0,
                \<lambda>(z, k). nat \<bar>z - month_start k\<bar>]"
    by auto
next
  fix z k :: int
  assume "\<not> z < month_start k" "month_start (k + 1) \<le> z"
  then show "((z, k + 1), (z, k)) \<in>
      measures [\<lambda>(z, k). if z < month_start k then 1 else 0,
                \<lambda>(z, k). nat \<bar>z - month_start k\<bar>]"
    using month_start_step[of k] by auto
qed

declare month_search.simps [simp del]

definition month_index :: "int \<Rightarrow> int" where
  "month_index z = month_search z (23640 + (4800 * z) div 146097)"

text \<open>\<^verbatim>\<open>t.Year()\<close>, \<^verbatim>\<open>t.Month()\<close> and \<^verbatim>\<open>t.Day()\<close> of an instant in UTC.\<close>

definition time_Year :: "Time \<Rightarrow> int" where
  "time_Year t = month_index (t div nsPerDay) div 12"

definition time_Month :: "Time \<Rightarrow> int" where
  "time_Month t = month_index (t div nsPerDay) mod 12 + 1"

definition time_Day :: "Time \<Rightarrow> int" where
  "time_Day t = t div nsPerDay - month_start (month_index (t div nsPerDay)) + 1"

text \<open>\<^verbatim>\<open>time.Date(year, month, day, hour, min, sec, nsec, time.UTC)\<close>. Fields out of
  range are normalised: month 13 is January of the next year.\<close>

definition time_Date :: "int \<Rightarrow> int \<Rightarrow> int \<Rightarrow> int \<Rightarrow> int \<Rightarrow> int \<Rightarrow> int \<Rightarrow> Time" where
  "time_Date year month day hour minute sec nsec =
     ((((month_start (12 * year + (month - 1)) + (day - 1)) * 24 + hour) * 60 + minute) * 60
        + sec) * 1000000000 + nsec"

text \<open>\<^verbatim>\<open>t.AddDate(years, months, days)\<close> for a time in UTC: the date fields are
  shifted and the result normalised by \<^verbatim>\<open>Date\<close>; the clock fields are carried over,
  here as one count of nanoseconds since midnight.\<close>

definition time_AddDate :: "Time \<Rightarrow> int \<Rightarrow> int \<Rightarrow> int \<Rightarrow> Time" where
  "time_AddDate t years months days =
     time_Date (time_Year t + years) (time_Month t + months) (time_Day t + days)
       0 0 0 (t mod nsPerDay)"

text \<open>
  A \<^verbatim>\<open>*time.Location\<close> is modelled by its \<^verbatim>\<open>lookup\<close>: for an instant in Unix
  seconds it gives the offset from UTC, in seconds, of the zone in effect then, and the
  first and the end second of the period in which that zone is in effect.
\<close>

type_synonym Location = "int \<Rightarrow> int \<times> int \<times> int"

definition utcLoc :: Location where
  "utcLoc = (\<lambda>sec. (0, - 9223372036854775808, 9223372036854775807))"

text \<open>\<^verbatim>\<open>t.abs()\<close>: the reading of the instant \<open>t\<close> on the wall clock of a location,
  as nanoseconds since 1970-01-01T00:00:00 on that clock.\<close>

definition time_abs :: "Location \<Rightarrow> Time \<Rightarrow> int" where
  "time_abs loc t = t + fst (loc (t div 1000000000)) * 1000000000"

text \<open>\<^verbatim>\<open>time.Date(year, month, day, hour, min, sec, nsec, loc)\<close>: the fields are read
  as UTC first; the offset in effect there is looked up, and once more at the corrected
  instant when that falls outside the period found.\<close>

definition time_Date_in ::
  "Location \<Rightarrow> int \<Rightarrow> int \<Rightarrow> int \<Rightarrow> int \<Rightarrow> int \<Rightarrow> int \<Rightarrow> int \<Rightarrow> Time" where
  "time_Date_in loc year month day hour minute sec nsec =
     (let u = time_Date year month day hour minute sec nsec;
          unix = u div 1000000000
      in case loc unix of
           (offset, start, fin) \<Rightarrow>
             if offset \<noteq> 0 then
               (let utc = unix - offset;
                    offset' = (if utc < start \<or> fin \<le> utc then fst (loc utc) else offset)
                in u - offset' * 1000000000)
             else u)"

text \<open>\<^verbatim>\<open>t.AddDate(years, months, days)\<close> for a time \<open>t\<close> in location \<open>loc\<close>: the
  date and the clock are those of the location's wall clock.\<close>

definition time_AddDate_in :: "Location \<Rightarrow> Time \<Rightarrow> int \<Rightarrow> int \<Rightarrow> int \<Rightarrow> Time" where
  "time_AddDate_in loc t years months days =
     (let a = time_abs loc t
      in time_Date_in loc (time_Year a + years) (time_Month a + months) (time_Day a + days)
           0 0 0 (a mod nsPerDay))"

fun dec_digits :: "nat \<Rightarrow> string" where
  "dec_digits n =
     (if n < 10 then [char_of (48 + n)]
      else dec_digits (n div 10) @ [char_of (48 + n mod 10)])"

declare dec_digits.simps [simp del]

text \<open>\<^verbatim>\<open>appendInt\<close> of package \<^verbatim>\<open>time\<close>: decimal, zero-padded to \<open>width\<close>, with a sign
  for negative numbers.\<close>

definition appendInt :: "int \<Rightarrow> nat \<Rightarrow> string" where
  "appendInt x width =
     (let ds = dec_digits (nat \<bar>x\<bar>)
      in (if x < 0 then ''-'' else []) @ replicate (width - length ds) (CHR ''0'') @ ds)"

text \<open>\<^verbatim>\<open>t.Format("2006-01")\<close>.\<close>

definition time_Format :: "Time \<Rightarrow> string" where
  "time_Format t = appendInt (time_Year t) 4 @ ''-'' @ appendInt (time_Month t) 2"

definition isDigit :: "char \<Rightarrow> bool" where
  "isDigit c = (CHR ''0'' \<le> c \<and> c \<le> CHR ''9'')"

definition digit_val :: "char \<Rightarrow> int" where
  "digit_val c = int (of_char c) - 48"

text \<open>\<^verbatim>\<open>time.Parse("2006-01", value)\<close>: exactly four digits, a dash and two digits, the
  month in 1..12; the result is midnight UTC on the first day of that month.\<close>

definition time_Parse :: "string \<Rightarrow> error + Time" where
  "time_Parse v =
     (case v of
        [y1, y2, y3, y4, dash, m1, m2] \<Rightarrow>
          if isDigit y1 \<and> isDigit y2 \<and> isDigit y3 \<and> isDigit y4 \<and> dash = CHR ''-''
             \<and> isDigit m1 \<and> isDigit m2
          then
            (let year = 1000 * digit_val y1 + 100 * digit_val y2 + 10 * digit_val y3
                   + digit_val y4;
                 month = 10 * digit_val m1 + digit_val m2
             in if month \<le> 0 \<or> 12 < month then Inl ErrParse
                else Inr (time_Date year month 1 0 0 0 0))
          else Inl ErrParse
      | _ \<Rightarrow> Inl ErrParse)"

lemma time_AddDate_month_later: "t < time_AddDate t 0 1 0"
proof -
  define z where "z = t div nsPerDay"
  define k where "k = month_index z"
  have k: "12 * (k div 12) + (k mod 12 + 1 + 1 - 1) = k + 1"
    by simp
  have t: "t = z * nsPerDay + t mod nsPerDay"
    by (simp add: z_def)
  have "time_AddDate t 0 1 0 =
      (month_start (k + 1) + (z - month_start k)) * nsPerDay + t mod nsPerDay"
    unfolding time_AddDate_def time_Date_def time_Year_def time_Month_def time_Day_def
      z_def[symmetric] k_def[symmetric]
    by (simp add: k nsPerDay_def)
  moreover have "z * nsPerDay < (month_start (k + 1) + (z - month_start k)) * nsPerDay"
    using month_start_step[of k] by (simp add: nsPerDay_def)
  ultimately show ?thesis using t by linarith
qed

text \<open>The loop of \<^verbatim>\<open>monthsInRange\<close>: \<^verbatim>\<open>for !cur.After(end) { ... }\<close>.\<close>

function months_loop :: "Time \<Rightarrow> Time \<Rightarrow> string list" where
  "months_loop cur fin =
     (if fin < cur then []
      else time_Format cur # months_loop (time_AddDate cur 0 1 0) fin)"
  by pat_completeness auto
termination
proof (relation "measure (\<lambda>(cur, fin). nat (fin - cur + 1))")
  show "wf (measure (\<lambda>(cur, fin). nat (fin - cur + 1)))"
    by simp
next
  fix cur fin :: int
  assume "\<not> fin < cur"
  then show "((time_AddDate cur 0 1 0, fin), (cur, fin)) \<in>
      measure (\<lambda>(cur, fin). nat (fin - cur + 1))"
    using time_AddDate_month_later[of cur] by simp
qed

declare months_loop.simps [simp del]

definition monthsInRange :: "Time \<Rightarrow> Time \<Rightarrow> string list" where
  "monthsInRange from_t to_t =
     (let cur = time_Date (time_Year from_t) (time_Month from_t) 1 0 0 0 0;
          fin = time_Date (time_Year to_t) (time_Month to_t) 1 0 0 0 0
      in months_loop cur fin)"

section \<open>Keys\<close>

text \<open>\<^verbatim>\<open>ulid.Timestamp\<close> of package \<^verbatim>\<open>oklog/ulid\<close>:
  \<^verbatim>\<open>uint64(t.Unix())*1000 + uint64(t.Nanosecond()/int(time.Millisecond))\<close>.\<close>

definition ulid_Timestamp :: "Time \<Rightarrow> 64 word" where
  "ulid_Timestamp t =
     word_of_int (t div 1000000000) * 1000 + word_of_int ((t mod 1000000000) div 1000000)"

text \<open>The largest timestamp a ULID holds: 48 bits.\<close>

definition maxTime :: "64 word" where
  "maxTime = 281474976710655"

text \<open>Go's conversion \<^verbatim>\<open>byte(x)\<close> of an unsigned 64-bit value: its low eight bits.\<close>

definition byte :: "64 word \<Rightarrow> char" where
  "byte x = char_of (unat x)"

text \<open>The six big-endian timestamp bytes written by \<^verbatim>\<open>ULID.SetTime\<close> and by
  \<^verbatim>\<open>timeBoundKey\<close>.\<close>

definition time_bytes :: "64 word \<Rightarrow> bytes" where
  "time_bytes ms =
     [byte (drop_bit 40 ms), byte (drop_bit 32 ms), byte (drop_bit 24 ms),
      byte (drop_bit 16 ms), byte (drop_bit 8 ms), byte ms]"

text \<open>The entropy source \<^verbatim>\<open>rand.Reader\<close> is the sequence of bytes it will deliver;
  \<^verbatim>\<open>io.ReadFull\<close> takes \<open>n\<close> of them, or fails with \<^verbatim>\<open>io.EOF\<close> when there is
  none and with \<^verbatim>\<open>io.ErrUnexpectedEOF\<close> when there are too few.\<close>

definition io_ReadFull :: "nat \<Rightarrow> bytes \<Rightarrow> error + (bytes \<times> bytes)" where
  "io_ReadFull n src =
     (if n \<le> length src then Inr (take n src, drop n src)
      else if src = [] then Inl ErrEOF
      else Inl ErrUnexpectedEOF)"

text \<open>\<^verbatim>\<open>ulid.New(ms, entropy)\<close> followed by \<^verbatim>\<open>MarshalBinary\<close>: 16 bytes.\<close>

definition ulid_New :: "64 word \<Rightarrow> bytes \<Rightarrow> error + (bytes \<times> bytes)" where
  "ulid_New ms src =
     (if maxTime < ms then Inl ErrBigTime
      else case io_ReadFull 10 src of
             Inl e \<Rightarrow> Inl e
           | Inr (r, src') \<Rightarrow> Inr (time_bytes ms @ r, src'))"

definition makeKey :: "Time \<Rightarrow> bytes \<Rightarrow> bytes \<Rightarrow> error + (bytes \<times> bytes)" where
  "makeKey t spanID src =
     (case ulid_New (ulid_Timestamp t) src of
        Inl e \<Rightarrow> Inl e
      | Inr (ulidBytes, src') \<Rightarrow>
          Inr (ulidBytes @ take 8 (spanID @ replicate 8 (CHR 0x00)), src'))"

definition timeBoundKey :: "Time \<Rightarrow> char \<Rightarrow> bytes" where
  "timeBoundKey t fill = time_bytes (ulid_Timestamp t) @ replicate 18 fill"

section \<open>The database\<close>

text \<open>
  The bbolt file is a tree of ordered maps. A bucket is the list of its entries in
  ascending key order; an entry is a value or a nested bucket. The root of a transaction
  holds buckets only. A cursor walks the list: \<^verbatim>\<open>First\<close>/\<^verbatim>\<open>Next\<close> from the
  front, \<^verbatim>\<open>Last\<close>/\<^verbatim>\<open>Prev\<close> from the back, \<^verbatim>\<open>Seek\<close> from the first key not
  below the one sought. A bucket handle is the path to it, so a change to a nested bucket
  is written back into its parent.
\<close>

datatype node = Val bytes | Sub "(bytes \<times> node) list"

type_synonym bucket = "(bytes \<times> node) list"

type_synonym root = "(bytes \<times> bucket) list"

record Store =
  db :: "root option"
  retentionDays :: int

fun kv_put :: "bytes \<Rightarrow> 'v \<Rightarrow> (bytes \<times> 'v) list \<Rightarrow> (bytes \<times> 'v) list" where
  "kv_put k v [] = [(k, v)]"
| "kv_put k v ((k', v') # rest) =
     (if k < k' then (k, v) # (k', v') # rest
      else if k = k' then (k, v) # rest
      else (k', v') # kv_put k v rest)"

definition kv_delete :: "bytes \<Rightarrow> (bytes \<times> 'v) list \<Rightarrow> (bytes \<times> 'v) list" where
  "kv_delete k kvs = filter (\<lambda>(k', v). k' \<noteq> k) kvs"

definition MaxKeySize :: nat where
  "MaxKeySize = 32768"

definition MaxValueSize :: nat where
  "MaxValueSize = 2147483646"

text \<open>\<^verbatim>\<open>(*Bucket).Bucket\<close>: nil when the key is absent or holds a value.\<close>

definition Bucket :: "bucket \<Rightarrow> bytes \<Rightarrow> bucket option" where
  "Bucket b name = (case map_of b name of Some (Sub c) \<Rightarrow> Some c | _ \<Rightarrow> None)"

text \<open>\<^verbatim>\<open>(*Bucket).CreateBucketIfNotExists\<close>: the parent after the call and the child.\<close>

definition CreateBucketIfNotExists :: "bucket \<Rightarrow> bytes \<Rightarrow> error + (bucket \<times> bucket)" where
  "CreateBucketIfNotExists b name =
     (if name = [] then Inl ErrBucketNameRequired
      else case map_of b name of
             Some (Sub c) \<Rightarrow> Inr (b, c)
           | Some (Val v) \<Rightarrow> Inl ErrIncompatibleValue
           | None \<Rightarrow> Inr (kv_put name (Sub []) b, []))"

definition Put :: "bucket \<Rightarrow> bytes \<Rightarrow> bytes \<Rightarrow> error + bucket" where
  "Put b key val =
     (if key = [] then Inl ErrKeyRequired
      else if MaxKeySize < length key then Inl ErrKeyTooLarge
      else if MaxValueSize < length val then Inl ErrValueTooLarge
      else case map_of b key of
             Some (Sub c) \<Rightarrow> Inl ErrIncompatibleValue
           | _ \<Rightarrow> Inr (kv_put key (Val val) b))"

definition DeleteBucket :: "bucket \<Rightarrow> bytes \<Rightarrow> error + bucket" where
  "DeleteBucket b name =
     (case map_of b name of
        None \<Rightarrow> Inl ErrBucketNotFound
      | Some (Val v) \<Rightarrow> Inl ErrIncompatibleValue
      | Some (Sub c) \<Rightarrow> Inr (kv_delete name b))"

text \<open>The same three on the root of a transaction.\<close>

definition tx_Bucket :: "root \<Rightarrow> bytes \<Rightarrow> bucket option" where
  "tx_Bucket r name = map_of r name"

definition tx_CreateBucketIfNotExists :: "root \<Rightarrow> bytes \<Rightarrow> error + (root \<times> bucket)" where
  "tx_CreateBucketIfNotExists r name =
     (if name = [] then Inl ErrBucketNameRequired
      else case map_of r name of
             Some c \<Rightarrow> Inr (r, c)
           | None \<Rightarrow> Inr (kv_put name [] r, []))"

definition tx_DeleteBucket :: "root \<Rightarrow> bytes \<Rightarrow> error + root" where
  "tx_DeleteBucket r name =
     (case map_of r name of
        None \<Rightarrow> Inl ErrBucketNotFound
      | Some c \<Rightarrow> Inr (kv_delete name r))"

text \<open>The value a cursor or \<^verbatim>\<open>ForEach\<close> hands out with a key: nil (no bytes) for a
  nested bucket.\<close>

fun val_bytes :: "node \<Rightarrow> bytes" where
  "val_bytes (Val v) = v"
| "val_bytes (Sub c) = []"

text \<open>\<^verbatim>\<open>Cursor.Seek\<close>: the entries from the first key not below \<open>seek\<close> on.\<close>

definition Seek :: "bucket \<Rightarrow> bytes \<Rightarrow> bucket" where
  "Seek b seek = dropWhile (\<lambda>(k, v). k < seek) b"

text \<open>The invariant of the file: in every bucket the keys are strictly ascending.\<close>

definition keys_sorted :: "(bytes \<times> 'v) list \<Rightarrow> bool" where
  "keys_sorted kvs = sorted_wrt (<) (map fst kvs)"

definition wf_bucket :: "bucket \<Rightarrow> bool" where
  "wf_bucket outer =
     (keys_sorted outer
      \<and> list_all (\<lambda>(k, v). case v of Sub c \<Rightarrow> keys_sorted c | Val x \<Rightarrow> True) outer)"

definition wf_root :: "root \<Rightarrow> bool" where
  "wf_root r = (keys_sorted r \<and> list_all (\<lambda>(k, outer). wf_bucket outer) r)"

section \<open>Environment and codecs\<close>

text \<open>
  The wall clock, the entropy source and the local time zone are the process's: the clock
  is the sequence of its readings, one per call of \<^verbatim>\<open>time.Now\<close>, the entropy source
  the bytes it will deliver, and \<open>location\<close> is \<^verbatim>\<open>time.Local\<close>, the location of the
  times that \<^verbatim>\<open>time.Now\<close> returns.
\<close>

record env =
  wall :: "nat \<Rightarrow> Time"
  ticks :: nat
  entropy :: bytes
  location :: Location

definition time_Now :: "env \<Rightarrow> Time \<times> env" where
  "time_Now e = (wall e (ticks e), e\<lparr>ticks := Suc (ticks e)\<rparr>)"

text \<open>
  The zlib and protobuf libraries are parameters of the model: what they make of a byte
  string is theirs to say.
\<close>

record codec =
  zlib_compress :: "bytes \<Rightarrow> error + bytes"
  zlib_decompress :: "bytes \<Rightarrow> error + bytes"
  proto_Marshal :: "ResourceSpans \<Rightarrow> error + bytes"
  proto_Unmarshal :: "bytes \<Rightarrow> error + ResourceSpans"
  proto_Marshal_Span :: "Span \<Rightarrow> bytes"

definition compress :: "codec \<Rightarrow> bytes \<Rightarrow> error + bytes" where
  "compress cd data = zlib_compress cd data"

definition decompress :: "codec \<Rightarrow> bytes \<Rightarrow> error + bytes" where
  "decompress cd data = zlib_decompress cd data"

definition decodeSpan :: "codec \<Rightarrow> bytes \<Rightarrow> error + Span" where
  "decodeSpan cd data =
     (case decompress cd data of
        Inl e \<Rightarrow> Inl e
      | Inr raw \<Rightarrow>
          (case proto_Unmarshal cd raw of
             Inl e \<Rightarrow> Inl e
           | Inr rs \<Rightarrow>
               (case concat (map Spans (ScopeSpans rs)) of
                  [] \<Rightarrow> Inl ErrNoSpanInEntry
                | span # spans \<Rightarrow> Inr span)))"

section \<open>Summaries\<close>

record SpanSummary =
  TraceID :: string
  SpanID :: string
  ParentSpanID :: string
  SummaryName :: string
  Month :: string
  StartTime :: Time
  EndTime :: Time
  SummaryStatus :: "32 word"
  SpanProto :: bytes

definition hextable :: string where
  "hextable = ''0123456789abcdef''"

text \<open>\<^verbatim>\<open>hex.EncodeToString\<close>.\<close>

definition hex_EncodeToString :: "bytes \<Rightarrow> string" where
  "hex_EncodeToString src =
     concat (map (\<lambda>v. [hextable ! (of_char v div 16), hextable ! (of_char v mod 16)]) src)"

text \<open>\<^verbatim>\<open>(*Status).GetCode\<close>: 0 for a nil status.\<close>

definition GetCode :: "Status option \<Rightarrow> 32 word" where
  "GetCode st = (case st of None \<Rightarrow> 0 | Some x \<Rightarrow> Code x)"

definition buildSummary :: "codec \<Rightarrow> Span \<Rightarrow> string \<Rightarrow> SpanSummary" where
  "buildSummary cd span month =
     \<lparr>TraceID = hex_EncodeToString (TraceId span),
      SpanID = hex_EncodeToString (SpanId span),
      ParentSpanID = hex_EncodeToString (ParentSpanId span),
      SummaryName = Name span,
      Month = month,
      StartTime = sint (StartTimeUnixNano span),
      EndTime = sint (EndTimeUnixNano span),
      SummaryStatus = GetCode (Status span),
      SpanProto = proto_Marshal_Span cd span\<rparr>"

section \<open>Service name\<close>

text \<open>\<^verbatim>\<open>(*AnyValue).GetStringValue\<close>: the string of a string value, the empty string for a
  nil receiver and for every other kind of value.\<close>

fun GetStringValue :: "AnyValue option \<Rightarrow> string" where
  "GetStringValue (Some (StringValue s)) = s"
| "GetStringValue _ = []"

fun serviceName_attrs :: "KeyValue list \<Rightarrow> string" where
  "serviceName_attrs [] = ''unknown''"
| "serviceName_attrs (attr # attrs) =
     (if Key attr = ''service.name'' then GetStringValue (Value attr)
      else serviceName_attrs attrs)"

definition serviceName :: "ResourceSpans \<Rightarrow> string" where
  "serviceName rs =
     (case Resource rs of
        None \<Rightarrow> ''unknown''
      | Some r \<Rightarrow> serviceName_attrs (Attributes r))"

section \<open>Write path\<close>

definition spanStartTime :: "Span \<Rightarrow> env \<Rightarrow> Time \<times> env" where
  "spanStartTime span e =
     (if 0 < StartTimeUnixNano span then (sint (StartTimeUnixNano span), e)
      else time_Now e)"

text \<open>The inner loop of \<^verbatim>\<open>WriteResourceSpans\<close> over the spans of one scope, on the
  service bucket \<open>outer\<close>.\<close>

fun write_spans ::
  "codec \<Rightarrow> ResourceSpans \<Rightarrow> ScopeSpans \<Rightarrow> Span list \<Rightarrow> bucket \<Rightarrow> env
     \<Rightarrow> (error + bucket) \<times> env" where
  "write_spans cd rs sls [] outer e = (Inr outer, e)"
| "write_spans cd rs sls (span # spans) outer e =
     (case spanStartTime span e of (t, e1) \<Rightarrow>
      (case CreateBucketIfNotExists outer (time_Format t) of
         Inl err \<Rightarrow> (Inl err, e1)
       | Inr (outer1, inner) \<Rightarrow>
      (case makeKey t (SpanId span) (entropy e1) of
         Inl err \<Rightarrow> (Inl (Wrapped ''key'' err), e1)
       | Inr (key, src) \<Rightarrow>
      (case proto_Marshal cd
              \<lparr>Resource = Resource rs,
               ScopeSpans = [\<lparr>Scope = Scope sls, Spans = [span],
                               ScopeSchemaUrl = ScopeSchemaUrl sls\<rparr>],
               SchemaUrl = SchemaUrl rs\<rparr> of
         Inl err \<Rightarrow> (Inl (Wrapped ''marshal'' err), e1\<lparr>entropy := src\<rparr>)
       | Inr data \<Rightarrow>
      (case compress cd data of
         Inl err \<Rightarrow> (Inl (Wrapped ''compress'' err), e1\<lparr>entropy := src\<rparr>)
       | Inr compressed \<Rightarrow>
      (case Put inner key compressed of
         Inl err \<Rightarrow> (Inl err, e1\<lparr>entropy := src\<rparr>)
       | Inr inner' \<Rightarrow>
           write_spans cd rs sls spans (kv_put (time_Format t) (Sub inner') outer1)
             (e1\<lparr>entropy := src\<rparr>)))))))"

fun write_scopes ::
  "codec \<Rightarrow> ResourceSpans \<Rightarrow> ScopeSpans list \<Rightarrow> bucket \<Rightarrow> env \<Rightarrow> (error + bucket) \<times> env" where
  "write_scopes cd rs [] outer e = (Inr outer, e)"
| "write_scopes cd rs (sls # rest) outer e =
     (case write_spans cd rs sls (Spans sls) outer e of
        (Inl err, e') \<Rightarrow> (Inl err, e')
      | (Inr outer', e') \<Rightarrow> write_scopes cd rs rest outer' e')"

text \<open>The body of the update transaction.\<close>

definition write_tx ::
  "codec \<Rightarrow> ResourceSpans \<Rightarrow> string \<Rightarrow> root \<Rightarrow> env \<Rightarrow> (error + root) \<times> env" where
  "write_tx cd rs svc r e =
     (case tx_CreateBucketIfNotExists r svc of
        Inl err \<Rightarrow> (Inl err, e)
      | Inr (r1, outer) \<Rightarrow>
          (case write_scopes cd rs (ScopeSpans rs) outer e of
             (Inl err, e') \<Rightarrow> (Inl err, e')
           | (Inr outer', e') \<Rightarrow> (Inr (kv_put svc outer' r1), e')))"

text \<open>\<^verbatim>\<open>db.Update\<close> commits when the body returns no error and rolls back otherwise.\<close>

definition WriteResourceSpans ::
  "codec \<Rightarrow> ResourceSpans \<Rightarrow> env \<Rightarrow> Store \<Rightarrow> error option \<times> env \<times> Store" where
  "WriteResourceSpans cd rs e s =
     (case db s of
        None \<Rightarrow> (Some ErrDatabaseNotOpen, e, s)
      | Some r \<Rightarrow>
          (case write_tx cd rs (serviceName rs) r e of
             (Inl err, e') \<Rightarrow> (Some err, e', s)
           | (Inr r', e') \<Rightarrow> (None, e', s\<lparr>db := Some r'\<rparr>)))"

section \<open>Newest-first reader\<close>

text \<open>The names of the nested buckets of a bucket, as \<^verbatim>\<open>ForEach\<close> meets them.\<close>

fun bucket_names :: "bucket \<Rightarrow> string list" where
  "bucket_names [] = []"
| "bucket_names ((k, Sub c) # rest) = k # bucket_names rest"
| "bucket_names ((k, Val v) # rest) = bucket_names rest"

text \<open>\<^verbatim>\<open>sort.Sort(sort.Reverse(sort.StringSlice(months)))\<close>.\<close>

definition sort_reverse :: "string list \<Rightarrow> string list" where
  "sort_reverse months = rev (sort months)"

text \<open>The reverse cursor loop of \<^verbatim>\<open>GetSpans\<close> over the entries still ahead of the
  cursor, newest first.\<close>

fun spans_cursor ::
  "codec \<Rightarrow> string \<Rightarrow> int \<Rightarrow> (bytes \<times> node) list \<Rightarrow> SpanSummary list \<Rightarrow> SpanSummary list" where
  "spans_cursor cd month limit [] result = result"
| "spans_cursor cd month limit ((k, v) # rest) result =
     (if int (length result) < limit then
        (case decodeSpan cd (val_bytes v) of
           Inl err \<Rightarrow> spans_cursor cd month limit rest result
         | Inr span \<Rightarrow> spans_cursor cd month limit rest (result @ [buildSummary cd span month]))
      else result)"

fun spans_months ::
  "codec \<Rightarrow> bucket \<Rightarrow> int \<Rightarrow> string list \<Rightarrow> SpanSummary list \<Rightarrow> SpanSummary list" where
  "spans_months cd outer limit [] result = result"
| "spans_months cd outer limit (month # months) result =
     (if limit \<le> int (length result) then result
      else case Bucket outer month of
             None \<Rightarrow> spans_months cd outer limit months result
           | Some inner \<Rightarrow>
               spans_months cd outer limit months (spans_cursor cd month limit (rev inner) result))"

definition GetSpans ::
  "codec \<Rightarrow> Store \<Rightarrow> string \<Rightarrow> int \<Rightarrow> SpanSummary list \<times> error option" where
  "GetSpans cd s service limit =
     (let limit = (if limit \<le> 0 then 50 else limit)
      in case db s of
           None \<Rightarrow> ([], Some ErrDatabaseNotOpen)
         | Some r \<Rightarrow>
             (case tx_Bucket r service of
                None \<Rightarrow> ([], None)
              | Some outer \<Rightarrow>
                  (spans_months cd outer limit (sort_reverse (bucket_names outer)) [], None)))"

section \<open>Full-scan fetch\<close>

fun trace_inner ::
  "codec \<Rightarrow> string \<Rightarrow> string \<Rightarrow> (bytes \<times> node) list \<Rightarrow> SpanSummary list \<Rightarrow> SpanSummary list" where
  "trace_inner cd traceID monthKey [] result = result"
| "trace_inner cd traceID monthKey ((k, v) # rest) result =
     (case decodeSpan cd (val_bytes v) of
        Inl err \<Rightarrow> trace_inner cd traceID monthKey rest result
      | Inr span \<Rightarrow>
          (if hex_EncodeToString (TraceId span) = traceID
           then trace_inner cd traceID monthKey rest (result @ [buildSummary cd span monthKey])
           else trace_inner cd traceID monthKey rest result))"

fun trace_outer ::
  "codec \<Rightarrow> string \<Rightarrow> bucket \<Rightarrow> (bytes \<times> node) list \<Rightarrow> SpanSummary list \<Rightarrow> SpanSummary list" where
  "trace_outer cd traceID outer [] result = result"
| "trace_outer cd traceID outer ((monthKey, Val v) # rest) result =
     trace_outer cd traceID outer rest result"
| "trace_outer cd traceID outer ((monthKey, Sub c) # rest) result =
     (case Bucket outer monthKey of
        None \<Rightarrow> trace_outer cd traceID outer rest result
      | Some inner \<Rightarrow>
          trace_outer cd traceID outer rest (trace_inner cd traceID monthKey inner result))"

fun trace_root ::
  "codec \<Rightarrow> string \<Rightarrow> (bytes \<times> bucket) list \<Rightarrow> SpanSummary list \<Rightarrow> SpanSummary list" where
  "trace_root cd traceID [] result = result"
| "trace_root cd traceID ((svcName, outer) # rest) result =
     trace_root cd traceID rest (trace_outer cd traceID outer outer result)"

definition GetTraceByID :: "codec \<Rightarrow> Store \<Rightarrow> string \<Rightarrow> SpanSummary list \<times> error option" where
  "GetTraceByID cd s traceID =
     (case db s of
        None \<Rightarrow> ([], Some ErrDatabaseNotOpen)
      | Some r \<Rightarrow> (trace_root cd traceID r [], None))"

section \<open>Anchored tree\<close>

text \<open>The forward cursor loop of \<^verbatim>\<open>findSpanByID\<close> in one month bucket.\<close>

fun find_cursor ::
  "codec \<Rightarrow> bytes \<Rightarrow> string \<Rightarrow> (bytes \<times> node) list \<Rightarrow> SpanSummary option" where
  "find_cursor cd spanID monthKey [] = None"
| "find_cursor cd spanID monthKey ((k, v) # rest) =
     (if length k = 24 \<and> drop 16 k = spanID then
        (case decodeSpan cd (val_bytes v) of
           Inl err \<Rightarrow> find_cursor cd spanID monthKey rest
         | Inr sp \<Rightarrow> Some (buildSummary cd sp monthKey))
      else find_cursor cd spanID monthKey rest)"

fun find_outer ::
  "codec \<Rightarrow> bytes \<Rightarrow> bucket \<Rightarrow> (bytes \<times> node) list \<Rightarrow> SpanSummary option
     \<Rightarrow> SpanSummary option" where
  "find_outer cd spanID outer [] result = result"
| "find_outer cd spanID outer ((monthKey, v) # rest) result =
     (if result \<noteq> None \<or> (case v of Val x \<Rightarrow> True | Sub c \<Rightarrow> False)
      then find_outer cd spanID outer rest result
      else case Bucket outer monthKey of
             None \<Rightarrow> find_outer cd spanID outer rest result
           | Some inner \<Rightarrow>
               find_outer cd spanID outer rest (find_cursor cd spanID monthKey inner))"

fun find_root ::
  "codec \<Rightarrow> bytes \<Rightarrow> (bytes \<times> bucket) list \<Rightarrow> SpanSummary option \<Rightarrow> SpanSummary option" where
  "find_root cd spanID [] result = result"
| "find_root cd spanID ((svcName, outer) # rest) result =
     (if result \<noteq> None then find_root cd spanID rest result
      else find_root cd spanID rest (find_outer cd spanID outer outer result))"

definition findSpanByID ::
  "codec \<Rightarrow> Store \<Rightarrow> bytes \<Rightarrow> SpanSummary option \<times> error option" where
  "findSpanByID cd s spanID =
     (case db s of
        None \<Rightarrow> (None, Some ErrDatabaseNotOpen)
      | Some r \<Rightarrow> (find_root cd spanID r None, None))"

text \<open>The cursor loop of \<^verbatim>\<open>scanWindow\<close> after \<^verbatim>\<open>Seek(loKey)\<close>:
  \<^verbatim>\<open>k != nil && bytes.Compare(k, hiKey) <= 0\<close>.\<close>

fun scan_cursor ::
  "codec \<Rightarrow> string \<Rightarrow> string \<Rightarrow> bytes \<Rightarrow> (bytes \<times> node) list \<Rightarrow> SpanSummary list
     \<Rightarrow> SpanSummary list" where
  "scan_cursor cd traceID month hiKey [] result = result"
| "scan_cursor cd traceID month hiKey ((k, v) # rest) result =
     (if k \<le> hiKey then
        (case decodeSpan cd (val_bytes v) of
           Inl err \<Rightarrow> scan_cursor cd traceID month hiKey rest result
         | Inr sp \<Rightarrow>
             (if hex_EncodeToString (TraceId sp) \<noteq> traceID
              then scan_cursor cd traceID month hiKey rest result
              else scan_cursor cd traceID month hiKey rest
                     (result @ [buildSummary cd sp month])))
      else result)"

fun scan_months ::
  "codec \<Rightarrow> string \<Rightarrow> bytes \<Rightarrow> bytes \<Rightarrow> bucket \<Rightarrow> string list \<Rightarrow> SpanSummary list
     \<Rightarrow> SpanSummary list" where
  "scan_months cd traceID loKey hiKey outer [] result = result"
| "scan_months cd traceID loKey hiKey outer (month # months) result =
     (case Bucket outer month of
        None \<Rightarrow> scan_months cd traceID loKey hiKey outer months result
      | Some inner \<Rightarrow>
          scan_months cd traceID loKey hiKey outer months
            (scan_cursor cd traceID month hiKey (Seek inner loKey) result))"

fun scan_root ::
  "codec \<Rightarrow> string \<Rightarrow> bytes \<Rightarrow> bytes \<Rightarrow> string list \<Rightarrow> (bytes \<times> bucket) list
     \<Rightarrow> SpanSummary list \<Rightarrow> SpanSummary list" where
  "scan_root cd traceID loKey hiKey months [] result = result"
| "scan_root cd traceID loKey hiKey months ((svcName, outer) # rest) result =
     scan_root cd traceID loKey hiKey months rest
       (scan_months cd traceID loKey hiKey outer months result)"

definition scanWindow ::
  "codec \<Rightarrow> Store \<Rightarrow> string \<Rightarrow> Time \<Rightarrow> Time \<Rightarrow> SpanSummary list \<times> error option" where
  "scanWindow cd s traceID from_t to_t =
     (let loKey = timeBoundKey from_t (CHR 0x00);
          hiKey = timeBoundKey to_t (CHR 0xFF);
          months = monthsInRange from_t to_t
      in case db s of
           None \<Rightarrow> ([], Some ErrDatabaseNotOpen)
         | Some r \<Rightarrow> (scan_root cd traceID loKey hiKey months r [], None))"

definition GetSpanTree ::
  "codec \<Rightarrow> Store \<Rightarrow> bytes \<Rightarrow> string \<times> SpanSummary list \<times> error option" where
  "GetSpanTree cd s spanID =
     (case findSpanByID cd s spanID of
        (anchor, Some err) \<Rightarrow> ([], [], Some err)
      | (None, None) \<Rightarrow> ([], [], None)
      | (Some anchor, None) \<Rightarrow>
          (let from_t = StartTime anchor + (- 2) * Minute;
               to_t = StartTime anchor + 2 * Minute
           in case scanWindow cd s (TraceID anchor) from_t to_t of
                (spans, err) \<Rightarrow> (TraceID anchor, spans, err)))"

section \<open>Retention cleanup\<close>

text \<open>The marking pass: \<^verbatim>\<open>outer.ForEach\<close> within \<^verbatim>\<open>tx.ForEach\<close>.\<close>

fun cleanup_months ::
  "Time \<Rightarrow> string \<Rightarrow> (bytes \<times> node) list \<Rightarrow> (string \<times> string) list
     \<Rightarrow> (string \<times> string) list" where
  "cleanup_months cutoff svcName [] toDelete = toDelete"
| "cleanup_months cutoff svcName ((monthKey, Val v) # rest) toDelete =
     cleanup_months cutoff svcName rest toDelete"
| "cleanup_months cutoff svcName ((monthKey, Sub c) # rest) toDelete =
     (case time_Parse monthKey of
        Inl err \<Rightarrow> cleanup_months cutoff svcName rest toDelete
      | Inr t \<Rightarrow>
          (let endOfMonth = time_Date (time_Year t) (time_Month t + 1) 1 0 0 0 0
           in if endOfMonth < cutoff
              then cleanup_months cutoff svcName rest (toDelete @ [(svcName, monthKey)])
              else cleanup_months cutoff svcName rest toDelete))"

fun cleanup_collect ::
  "Time \<Rightarrow> (bytes \<times> bucket) list \<Rightarrow> (string \<times> string) list \<Rightarrow> (string \<times> string) list" where
  "cleanup_collect cutoff [] toDelete = toDelete"
| "cleanup_collect cutoff ((svcName, outer) # rest) toDelete =
     cleanup_collect cutoff rest (cleanup_months cutoff svcName outer toDelete)"

text \<open>The deleting pass.\<close>

fun cleanup_delete :: "(string \<times> string) list \<Rightarrow> root \<Rightarrow> error + root" where
  "cleanup_delete [] r = Inr r"
| "cleanup_delete ((svc, month) # rest) r =
     (case tx_Bucket r svc of
        None \<Rightarrow> cleanup_delete rest r
      | Some outer \<Rightarrow>
          (case DeleteBucket outer month of
             Inl err \<Rightarrow> Inl (Wrapped (''delete '' @ svc @ ''/'' @ month) err)
           | Inr outer' \<Rightarrow>
               (if outer' = [] then
                  (case tx_DeleteBucket (kv_put svc outer' r) svc of
                     Inl err \<Rightarrow> Inl (Wrapped (''delete svc bucket '' @ svc) err)
                   | Inr r' \<Rightarrow> cleanup_delete rest r')
                else cleanup_delete rest (kv_put svc outer' r))))"

text \<open>\<^verbatim>\<open>Cleanup\<close>. The cutoff is \<^verbatim>\<open>time.Now().AddDate(0, 0, -s.retentionDays)\<close>:
  \<^verbatim>\<open>time.Now\<close> returns a time in the local zone, so the days are taken off the date on
  the local wall clock.\<close>

definition Cleanup :: "env \<Rightarrow> Store \<Rightarrow> error option \<times> env \<times> Store" where
  "Cleanup e s =
     (case time_Now e of (now, e') \<Rightarrow>
        (let cutoff = time_AddDate_in (location e) now 0 0 (- retentionDays s)
         in case db s of
              None \<Rightarrow> (Some ErrDatabaseNotOpen, e', s)
            | Some r \<Rightarrow>
                (case cleanup_delete (cleanup_collect cutoff r []) r of
                   Inl err \<Rightarrow> (Some err, e', s)
                 | Inr r' \<Rightarrow> (None, e', s\<lparr>db := Some r'\<rparr>))))"

section \<open>What the store holds\<close>

text \<open>
  The stored spans, for stating what the readers return: the spans that the records of a
  month bucket decode to, in key order, and those of every month partition of every
  service, each with the name of its month.
\<close>

definition decoded :: "codec \<Rightarrow> (bytes \<times> node) list \<Rightarrow> Span list" where
  "decoded cd entries =
     concat (map (\<lambda>(k, v). case decodeSpan cd (val_bytes v) of Inl e \<Rightarrow> [] | Inr sp \<Rightarrow> [sp])
       entries)"

definition stored_spans :: "codec \<Rightarrow> root \<Rightarrow> (string \<times> Span) list" where
  "stored_spans cd r =
     concat (map (\<lambda>(svc, outer).
       concat (map (\<lambda>m. case Bucket outer m of
                           None \<Rightarrow> []
                         | Some inner \<Rightarrow> map (Pair m) (decoded cd inner))
                (bucket_names outer))) r)"

text \<open>The summaries of the stored spans whose trace identifier reads \<open>traceID\<close> in
  lowercase hex.\<close>

definition matching :: "codec \<Rightarrow> string \<Rightarrow> (string \<times> Span) list \<Rightarrow> SpanSummary list" where
  "matching cd traceID ps =
     map (\<lambda>(m, sp). buildSummary cd sp m)
       (filter (\<lambda>(m, sp). hex_EncodeToString (TraceId sp) = traceID) ps)"

text \<open>
  The decodable records of a month bucket with their keys, newest (greatest key) first;
  those of a service, months in descending order of their names; \<open>newer a b\<close> says that
  record \<open>a\<close> comes before \<open>b\<close> in that order.
\<close>

definition records_of :: "codec \<Rightarrow> (bytes \<times> node) list \<Rightarrow> (bytes \<times> Span) list" where
  "records_of cd entries =
     concat (map (\<lambda>(k, v). case decodeSpan cd (val_bytes v) of
                               Inl e \<Rightarrow> []
                             | Inr sp \<Rightarrow> [(k, sp)]) entries)"

definition month_records :: "codec \<Rightarrow> bucket \<Rightarrow> (bytes \<times> Span) list" where
  "month_records cd inner = records_of cd (rev inner)"

definition newest_first :: "codec \<Rightarrow> bucket \<Rightarrow> (string \<times> bytes \<times> Span) list" where
  "newest_first cd outer =
     concat (map (\<lambda>m. case Bucket outer m of
                         None \<Rightarrow> []
                       | Some inner \<Rightarrow> map (Pair m) (month_records cd inner))
              (sort_reverse (bucket_names outer)))"

definition summaries :: "codec \<Rightarrow> (string \<times> bytes \<times> Span) list \<Rightarrow> SpanSummary list" where
  "summaries cd recs = map (\<lambda>(m, k, sp). buildSummary cd sp m) recs"

definition newer :: "string \<times> bytes \<times> Span \<Rightarrow> string \<times> bytes \<times> Span \<Rightarrow> bool" where
  "newer a b = (fst b < fst a \<or> (fst b = fst a \<and> fst (snd b) < fst (snd a)))"

text \<open>
  Retention. The year and month a partition name \<open>YYYY-MM\<close> stands for; the first instant
  of the calendar month after it; \<open>expired cutoff name\<close>: the name is a month and that
  instant is strictly before the cutoff.
\<close>

definition month_of_name :: "string \<Rightarrow> (int \<times> int) option" where
  "month_of_name v =
     (if length v = 7 \<and> list_all isDigit [v ! 0, v ! 1, v ! 2, v ! 3, v ! 5, v ! 6]
         \<and> v ! 4 = CHR ''-''
      then
        (let y = 1000 * digit_val (v ! 0) + 100 * digit_val (v ! 1) + 10 * digit_val (v ! 2)
               + digit_val (v ! 3);
             m = 10 * digit_val (v ! 5) + digit_val (v ! 6)
         in if 1 \<le> m \<and> m \<le> 12 then Some (y, m) else None)
      else None)"

definition following_month :: "int \<Rightarrow> int \<Rightarrow> Time" where
  "following_month y m =
     (if m = 12 then time_Date (y + 1) 1 1 0 0 0 0 else time_Date y (m + 1) 1 0 0 0 0)"

definition expired :: "Time \<Rightarrow> string \<Rightarrow> bool" where
  "expired cutoff name =
     (case month_of_name name of
        None \<Rightarrow> False
      | Some (y, m) \<Rightarrow> following_month y m < cutoff)"

text \<open>The partitions the marking pass of \<^verbatim>\<open>Cleanup\<close> selects, the months among them of
  one service, and what is left of a service bucket once the months \<open>del\<close> are deleted
  from it: nothing when that empties it.\<close>

definition marked_pairs :: "Time \<Rightarrow> root \<Rightarrow> (string \<times> string) list" where
  "marked_pairs cutoff r =
     concat (map (\<lambda>(svc, outer). map (Pair svc) (filter (expired cutoff) (bucket_names outer))) r)"

definition months_of :: "string \<Rightarrow> (string \<times> string) list \<Rightarrow> string list" where
  "months_of svc ps = map snd (filter (\<lambda>p. fst p = svc) ps)"

definition after_delete :: "string list \<Rightarrow> bucket option \<Rightarrow> bucket option" where
  "after_delete del b =
     (case b of
        None \<Rightarrow> None
      | Some outer \<Rightarrow>
          (let outer' = filter (\<lambda>(k, v). k \<notin> set del) outer
           in if del \<noteq> [] \<and> outer' = [] then None else Some outer'))"

text \<open>
  The start time of a span at millisecond resolution, and its identifier as the last eight
  bytes of a key hold it: cut or padded with zero bytes to eight.
\<close>

definition start_ms :: "Span \<Rightarrow> int" where
  "start_ms span = uint (StartTimeUnixNano span) div 1000000"

definition padded_id :: "Span \<Rightarrow> bytes" where
  "padded_id span = take 8 (SpanId span @ replicate 8 (CHR 0x00))"

text \<open>
  Counting. The number of records in the month partitions of a service bucket and of a
  named service; the 10-byte chunks the next \<open>n\<close> keys will draw from the entropy source;
  the random parts (bytes 6 to 15) of the keys already in a service bucket.
\<close>

definition record_count :: "bucket \<Rightarrow> nat" where
  "record_count outer =
     sum_list (map (\<lambda>(m, v). case v of Sub c \<Rightarrow> length c | Val x \<Rightarrow> 0) outer)"

definition service_bucket :: "root \<Rightarrow> string \<Rightarrow> bucket" where
  "service_bucket r svc = (case tx_Bucket r svc of None \<Rightarrow> [] | Some outer \<Rightarrow> outer)"

definition service_count :: "root \<Rightarrow> string \<Rightarrow> nat" where
  "service_count r svc = record_count (service_bucket r svc)"

primrec chunks :: "nat \<Rightarrow> bytes \<Rightarrow> bytes list" where
  "chunks 0 src = []"
| "chunks (Suc n) src = take 10 src # chunks n (drop 10 src)"

definition key_rands :: "(bytes \<times> node) list \<Rightarrow> bytes list" where
  "key_rands c = map (\<lambda>(k, x). take 10 (drop 6 k)) c"

definition rand_parts :: "bucket \<Rightarrow> bytes list" where
  "rand_parts outer =
     concat (map (\<lambda>(m, v). case v of Sub c \<Rightarrow> key_rands c | Val x \<Rightarrow> []) outer)"

text \<open>
  The window scan. The records of a month bucket that \<open>scanWindow\<close> keeps: those that
  decode, whose key lies between the two bound keys, both included, and whose trace
  identifier reads \<open>traceID\<close>; and those of every service in the months of the window, each
  with the name of its month. \<open>month_of\<close> is the month index of an instant and
  \<open>month_name\<close> the name \<open>time_Format\<close> gives that month.
\<close>

definition window_records ::
  "codec \<Rightarrow> string \<Rightarrow> bytes \<Rightarrow> bytes \<Rightarrow> (bytes \<times> node) list \<Rightarrow> (bytes \<times> Span) list" where
  "window_records cd traceID loKey hiKey inner =
     filter (\<lambda>(k, sp). loKey \<le> k \<and> k \<le> hiKey \<and> hex_EncodeToString (TraceId sp) = traceID)
       (records_of cd inner)"

definition window_scan ::
  "codec \<Rightarrow> root \<Rightarrow> string \<Rightarrow> Time \<Rightarrow> Time \<Rightarrow> (string \<times> bytes \<times> Span) list" where
  "window_scan cd r traceID from_t to_t =
     concat (map (\<lambda>(svc, outer).
       concat (map (\<lambda>m. case Bucket outer m of
                           None \<Rightarrow> []
                         | Some inner \<Rightarrow>
                             map (Pair m)
                               (window_records cd traceID (timeBoundKey from_t (CHR 0x00))
                                  (timeBoundKey to_t (CHR 0xFF)) inner))
                (monthsInRange from_t to_t))) r)"

definition month_of :: "Time \<Rightarrow> int" where
  "month_of t = month_index (t div nsPerDay)"

definition month_name :: "int \<Rightarrow> string" where
  "month_name k = appendInt (k div 12) 4 @ ''-'' @ appendInt (k mod 12 + 1) 2"

section \<open>Example codec\<close>

text \<open>
  To run the model on concrete stores the examples below use a small codec in place of
  zlib and protobuf: a compressed value is its input behind one marker byte, and an encoded
  span is its trace identifier, its span identifier and its start time in 32 bytes.
\<close>

definition be64 :: "64 word \<Rightarrow> bytes" where
  "be64 w = [byte (drop_bit 56 w), byte (drop_bit 48 w)] @ time_bytes w"

definition from_be :: "bytes \<Rightarrow> 64 word" where
  "from_be bs = foldl (\<lambda>acc c. push_bit 8 acc + of_char c) 0 bs"

definition plain_Marshal_Span :: "Span \<Rightarrow> bytes" where
  "plain_Marshal_Span span = TraceId span @ SpanId span @ be64 (StartTimeUnixNano span)"

definition plain_Marshal :: "ResourceSpans \<Rightarrow> error + bytes" where
  "plain_Marshal rs =
     (case concat (map Spans (ScopeSpans rs)) of
        [span] \<Rightarrow> Inr (plain_Marshal_Span span)
      | _ \<Rightarrow> Inl ErrProto)"

definition plain_Unmarshal :: "bytes \<Rightarrow> error + ResourceSpans" where
  "plain_Unmarshal raw =
     (if length raw = 32 then
        Inr \<lparr>Resource = None,
             ScopeSpans = [\<lparr>Scope = None,
               Spans = [\<lparr>TraceId = take 16 raw, SpanId = take 8 (drop 16 raw),
                          ParentSpanId = [], Name = [],
                          StartTimeUnixNano = from_be (drop 24 raw), EndTimeUnixNano = 0,
                          Status = None\<rparr>],
               ScopeSchemaUrl = []\<rparr>],
             SchemaUrl = []\<rparr>
      else Inl ErrProto)"

definition plain_codec :: codec where
  "plain_codec =
     \<lparr>zlib_compress = (\<lambda>data. Inr (CHR ''z'' # data)),
      zlib_decompress =
        (\<lambda>data. case data of
                   [] \<Rightarrow> Inl ErrZlib
                 | c # raw \<Rightarrow> if c = CHR ''z'' then Inr raw else Inl ErrZlib),
      proto_Marshal = plain_Marshal,
      proto_Unmarshal = plain_Unmarshal,
      proto_Marshal_Span = plain_Marshal_Span\<rparr>"

section \<open>Example data\<close>

definition example_env :: env where
  "example_env =
     \<lparr>wall = (\<lambda>n. 1771502400000000000), ticks = 0, entropy = ''0123456789abcdefghij'',
      location = utcLoc\<rparr>"

definition example_span :: "bytes \<Rightarrow> bytes \<Rightarrow> 64 word \<Rightarrow> Span" where
  "example_span trace spanID start =
     \<lparr>TraceId = trace, SpanId = spanID, ParentSpanId = [], Name = ''op'',
      StartTimeUnixNano = start, EndTimeUnixNano = start + 1000000000, Status = None\<rparr>"

definition example_rs :: "string \<Rightarrow> Span list \<Rightarrow> ResourceSpans" where
  "example_rs service spans =
     \<lparr>Resource = Some \<lparr>Attributes =
        [\<lparr>Key = ''service.name'', Value = Some (StringValue service)\<rparr>]\<rparr>,
      ScopeSpans = [\<lparr>Scope = None, Spans = spans, ScopeSchemaUrl = []\<rparr>],
      SchemaUrl = []\<rparr>"

definition empty_store :: Store where
  "empty_store = \<lparr>db = Some [], retentionDays = 60\<rparr>"

text \<open>The store after one span of trace \<open>TTTTTTTTTTTTTTTT\<close> has been written to the empty
  store on 2026-02-19 (see \<open>example_write\<close> below).\<close>

definition example_store :: Store where
  "example_store =
     \<lparr>db = Some [(''svc'', [(''2026-02'',
        Sub [(time_bytes 1771502400000 @ ''0123456789'' @ ''span0001'',
              Val (CHR ''z'' # ''TTTTTTTTTTTTTTTT'' @ ''span0001'' @ be64 1771502400000000000))])])],
      retentionDays = 60\<rparr>"

text \<open>A service with two month partitions; one February record does not decode.\<close>

definition example_value :: "bytes \<Rightarrow> bytes \<Rightarrow> 64 word \<Rightarrow> bytes" where
  "example_value trace spanID start = CHR ''z'' # trace @ spanID @ be64 start"

definition january :: bucket where
  "january =
     [(time_bytes 1768000000000 @ ''0000000000'' @ ''span0001'',
       Val (example_value ''TTTTTTTTTTTTTTTT'' ''span0001'' 1768000000000000000)),
      (time_bytes 1768000001000 @ ''0000000000'' @ ''span0002'',
       Val (example_value ''TTTTTTTTTTTTTTTT'' ''span0002'' 1768000001000000000))]"

definition february :: bucket where
  "february =
     [(time_bytes 1771502400000 @ ''0000000000'' @ ''span0003'',
       Val (example_value ''TTTTTTTTTTTTTTTT'' ''span0003'' 1771502400000000000)),
      (time_bytes 1771502400000 @ ''1111111111'' @ ''span0004'',
       Val ''corrupt''),
      (time_bytes 1771502460000 @ ''0000000000'' @ ''span0005'',
       Val (example_value ''UUUUUUUUUUUUUUUU'' ''span0005'' 1771502460000000000))]"

definition two_months :: bucket where
  "two_months = [(''2026-01'', Sub january), (''2026-02'', Sub february)]"

definition two_month_store :: Store where
  "two_month_store = \<lparr>db = Some [(''svc'', two_months)], retentionDays = 60\<rparr>"

text \<open>A service with an old month, the two months above and a partition whose name is no
  month, and a clock that puts the cutoff of 60 days at 2026-02-01T00:00:00Z, the end of
  January.\<close>

definition cleanup_env :: env where
  "cleanup_env =
     \<lparr>wall = (\<lambda>n. 1775088000000000000), ticks = 0, entropy = [], location = utcLoc\<rparr>"

text \<open>The two periods of \<^verbatim>\<open>America/New_York\<close> that meet on 2026-03-08T07:00:00Z, when
  daylight saving time begins, and a clock in that zone at 2026-04-01T23:30:00Z, which is
  19:30 there; 60 days earlier on that wall clock is 2026-01-31 19:30 standard time,
  2026-02-01T00:30:00Z.\<close>

definition new_york :: Location where
  "new_york =
     (\<lambda>sec. if sec < 1772953200 then (- 18000, 1762063200, 1772953200)
            else (- 14400, 1772953200, 1793512800))"

definition new_york_env :: env where
  "new_york_env =
     \<lparr>wall = (\<lambda>n. 1775086200000000000), ticks = 0, entropy = [], location = new_york\<rparr>"

definition utc_env :: env where
  "utc_env =
     \<lparr>wall = (\<lambda>n. 1775086200000000000), ticks = 0, entropy = [], location = utcLoc\<rparr>"

definition cleanup_months_example :: bucket where
  "cleanup_months_example =
     [(''2020-01'', Sub []), (''2026-01'', Sub january), (''2026-02'', Sub february),
      (''not-a-month'', Sub [])]"

definition cleanup_store :: Store where
  "cleanup_store = \<lparr>db = Some [(''mix'', cleanup_months_example)], retentionDays = 60\<rparr>"

text \<open>A batch of two spans in two months, written to the empty store with fresh entropy; and
  a batch of two spans that share their span identifier and their millisecond, written while
  the entropy source repeats its 10 bytes.\<close>

definition two_span_batch :: ResourceSpans where
  "two_span_batch =
     example_rs ''svc''
       [example_span ''TTTTTTTTTTTTTTTT'' ''span0001'' 1771502400000000000,
        example_span ''TTTTTTTTTTTTTTTT'' ''span0002'' 1768000000000000000]"

definition two_span_store :: Store where
  "two_span_store =
     \<lparr>db = Some [(''svc'',
        [(''2026-01'',
          Sub [(time_bytes 1768000000000 @ ''abcdefghij'' @ ''span0002'',
                Val (example_value ''TTTTTTTTTTTTTTTT'' ''span0002'' 1768000000000000000))]),
         (''2026-02'',
          Sub [(time_bytes 1771502400000 @ ''0123456789'' @ ''span0001'',
                Val (example_value ''TTTTTTTTTTTTTTTT'' ''span0001'' 1771502400000000000))])])],
      retentionDays = 60\<rparr>"

definition repeating_env :: env where
  "repeating_env =
     \<lparr>wall = (\<lambda>n. 1771502400000000000), ticks = 0, entropy = ''00000000000000000000'',
      location = utcLoc\<rparr>"

definition same_key_batch :: ResourceSpans where
  "same_key_batch =
     example_rs ''svc''
       [example_span ''TTTTTTTTTTTTTTTT'' ''span0001'' 1771502400000000000,
        example_span ''UUUUUUUUUUUUUUUU'' ''span0001'' 1771502400000000000]"

definition same_key_store :: Store where
  "same_key_store =
     \<lparr>db = Some [(''svc'',
        [(''2026-02'',
          Sub [(time_bytes 1771502400000 @ ''0000000000'' @ ''span0001'',
                Val (example_value ''UUUUUUUUUUUUUUUU'' ''span0001'' 1771502400000000000))])])],
      retentionDays = 60\<rparr>"

text \<open>A span without a start time and one that started 100 seconds before the clock of
  \<open>example_env\<close>, and the store after both have been written to the empty store.\<close>

definition zero_start_batch :: ResourceSpans where
  "zero_start_batch =
     example_rs ''svc''
       [example_span ''TTTTTTTTTTTTTTTT'' ''span0001'' 0,
        example_span ''TTTTTTTTTTTTTTTT'' ''span0002'' 1771502300000000000]"

definition zero_start_month :: bucket where
  "zero_start_month =
     [(time_bytes 1771502300000 @ ''abcdefghij'' @ ''span0002'',
       Val (example_value ''TTTTTTTTTTTTTTTT'' ''span0002'' 1771502300000000000)),
      (time_bytes 1771502400000 @ ''0123456789'' @ ''span0001'',
       Val (example_value ''TTTTTTTTTTTTTTTT'' ''span0001'' 0))]"

definition zero_start_store :: Store where
  "zero_start_store =
     \<lparr>db = Some [(''svc'', [(''2026-02'', Sub zero_start_month)])], retentionDays = 60\<rparr>"

text \<open>Two spans of one trace written one and three minutes after the epoch; and an anchor
  of 2026-02-19 with peers two minutes before and after it and one millisecond beyond.\<close>

definition early_batch :: ResourceSpans where
  "early_batch =
     example_rs ''svc''
       [example_span ''TTTTTTTTTTTTTTTT'' ''span0001'' 60000000000,
        example_span ''TTTTTTTTTTTTTTTT'' ''span0002'' 180000000000]"

definition early_store :: Store where
  "early_store =
     \<lparr>db = Some [(''svc'',
        [(''1970-01'',
          Sub [(time_bytes 60000 @ ''0123456789'' @ ''span0001'',
                Val (example_value ''TTTTTTTTTTTTTTTT'' ''span0001'' 60000000000)),
               (time_bytes 180000 @ ''abcdefghij'' @ ''span0002'',
                Val (example_value ''TTTTTTTTTTTTTTTT'' ''span0002'' 180000000000))])])],
      retentionDays = 60\<rparr>"

definition window_env :: env where
  "window_env =
     \<lparr>wall = (\<lambda>n. 1771502400000000000), ticks = 0,
      entropy = ''0123456789abcdefghijABCDEFGHIJklmnopqrstKLMNOPQRST'', location = utcLoc\<rparr>"

definition window_batch :: ResourceSpans where
  "window_batch =
     example_rs ''svc''
       [example_span ''TTTTTTTTTTTTTTTT'' ''span0001'' 1771502400000000000,
        example_span ''TTTTTTTTTTTTTTTT'' ''span0002'' 1771502520000000000,
        example_span ''TTTTTTTTTTTTTTTT'' ''span0003'' 1771502280000000000,
        example_span ''TTTTTTTTTTTTTTTT'' ''span0004'' 1771502520001000000,
        example_span ''TTTTTTTTTTTTTTTT'' ''span0005'' 1771502279999000000]"

definition window_store :: Store where
  "window_store =
     \<lparr>db = Some [(''svc'',
        [(''2026-02'',
          Sub [(time_bytes 1771502279999 @ ''KLMNOPQRST'' @ ''span0005'',
                Val (example_value ''TTTTTTTTTTTTTTTT'' ''span0005'' 1771502279999000000)),
               (time_bytes 1771502280000 @ ''ABCDEFGHIJ'' @ ''span0003'',
                Val (example_value ''TTTTTTTTTTTTTTTT'' ''span0003'' 1771502280000000000)),
               (time_bytes 1771502400000 @ ''0123456789'' @ ''span0001'',
                Val (example_value ''TTTTTTTTTTTTTTTT'' ''span0001'' 1771502400000000000)),
               (time_bytes 1771502520000 @ ''abcdefghij'' @ ''span0002'',
                Val (example_value ''TTTTTTTTTTTTTTTT'' ''span0002'' 1771502520000000000)),
               (time_bytes 1771502520001 @ ''klmnopqrst'' @ ''span0004'',
                Val (example_value ''TTTTTTTTTTTTTTTT'' ''span0004'' 1771502520001000000))])])],
      retentionDays = 60\<rparr>"

section \<open>Properties\<close>

subsection \<open>Running the examples\<close>

lemma length_be64 [simp]: "length (be64 w) = 8"
  by (simp add: be64_def time_bytes_def)

lemma of_char_char_of_word: "(of_char (char_of (n::nat)) :: 64 word) = of_nat (n mod 256)"
proof -
  have "(of_char (char_of n) :: 64 word) = of_nat (of_char (char_of n))"
    by (simp only: of_nat_of_char)
  then show ?thesis by simp
qed

lemmas char_eval = char_of_eq_iff less_char_def less_eq_char_def of_char_char_of_word

lemmas key_eval =
  time_bytes_def be64_def byte_def drop_bit_eq_div ulid_Timestamp_def maxTime_def
  makeKey_def ulid_New_def io_ReadFull_def

lemmas codec_eval =
  plain_codec_def plain_Marshal_def plain_Unmarshal_def plain_Marshal_Span_def
  compress_def decompress_def decodeSpan_def

lemmas time_eval =
  time_Format_def time_Year_def time_Month_def time_Day_def time_Date_def month_index_def
  month_search.simps month_start_def nsPerDay_def appendInt_def dec_digits.simps

lemma t_format: "time_Format 1771502400000000000 = ''2026-02''"
  by (simp add: time_eval char_eval)

lemma example_write:
  "WriteResourceSpans plain_codec
     (example_rs ''svc'' [example_span ''TTTTTTTTTTTTTTTT'' ''span0001'' 1771502400000000000])
     example_env empty_store
   = (None, example_env\<lparr>entropy := ''abcdefghij''\<rparr>, example_store)"
  by (simp add: WriteResourceSpans_def write_tx_def serviceName_def
      tx_CreateBucketIfNotExists_def CreateBucketIfNotExists_def Put_def
      MaxKeySize_def MaxValueSize_def spanStartTime_def t_format key_eval codec_eval
      example_env_def example_span_def example_rs_def empty_store_def example_store_def)

subsection \<open>Calendar\<close>

lemma month_search_bracket:
  "month_start (month_search z k) \<le> z \<and> z < month_start (month_search z k + 1)"
proof (induction z k rule: month_search.induct)
  case (1 z k)
  show ?case
  proof (cases "z < month_start k")
    case True
    then show ?thesis
      using "1.IH"(1) by (subst (1 2) month_search.simps) simp
  next
    case False
    show ?thesis
    proof (cases "month_start (k + 1) \<le> z")
      case True
      then show ?thesis
        using False "1.IH"(2) by (subst (1 2) month_search.simps) simp
    next
      case ge: False
      then show ?thesis
        using False by (subst (1 2) month_search.simps) simp
    qed
  qed
qed

lemma month_start_less_nat: "month_start k < month_start (k + 1 + int n)"
proof (induction n)
  case 0
  then show ?case using month_start_step[of k] by simp
next
  case (Suc n)
  have "month_start (k + 1 + int n) < month_start (k + 1 + int n + 1)"
    by (rule month_start_step)
  then show ?case using Suc by (simp add: add.assoc)
qed

lemma month_start_strict_mono: "k < k' \<Longrightarrow> month_start k < month_start k'"
  using month_start_less_nat[of k "nat (k' - k - 1)"] by simp

lemma month_start_mono: "k \<le> k' \<Longrightarrow> month_start k \<le> month_start k'"
  using month_start_strict_mono[of k k'] by (cases "k = k'") auto

lemma month_bracket_unique:
  assumes "month_start a \<le> z" "z < month_start (a + 1)"
    and "month_start b \<le> z" "z < month_start (b + 1)"
  shows "a = b"
proof (rule ccontr)
  assume "a \<noteq> b"
  then consider "a + 1 \<le> b" | "b + 1 \<le> a" by linarith
  then show False
  proof cases
    case 1
    then show False using month_start_mono[of "a + 1" b] assms by linarith
  next
    case 2
    then show False using month_start_mono[of "b + 1" a] assms by linarith
  qed
qed

lemma month_index_iff: "month_index z = k \<longleftrightarrow> month_start k \<le> z \<and> z < month_start (k + 1)"
  using month_search_bracket[of z "23640 + (4800 * z) div 146097"] month_bracket_unique
  unfolding month_index_def by blast

lemma month_index_month_start [simp]: "month_index (month_start k) = k"
  using month_start_step[of k] by (simp add: month_index_iff)

lemma month_index_mono: "z \<le> z' \<Longrightarrow> month_index z \<le> month_index z'"
proof (rule ccontr)
  assume le: "z \<le> z'" and "\<not> month_index z \<le> month_index z'"
  then have "month_index z' + 1 \<le> month_index z" by simp
  then have "month_start (month_index z' + 1) \<le> month_start (month_index z)"
    by (rule month_start_mono)
  moreover have "z' < month_start (month_index z' + 1)" "month_start (month_index z) \<le> z"
    using month_index_iff by blast+
  ultimately show False using le by linarith
qed

lemma first_of_month: "time_Date y m 1 0 0 0 0 = month_start (12 * y + (m - 1)) * nsPerDay"
  by (simp add: time_Date_def nsPerDay_def)

lemma time_Year_Date:
  assumes "1 \<le> m" "m \<le> 12"
  shows "time_Year (time_Date y m 1 0 0 0 0) = y" and "time_Month (time_Date y m 1 0 0 0 0) = m"
proof -
  have d: "month_start (12 * y + (m - 1)) * nsPerDay div nsPerDay = month_start (12 * y + (m - 1))"
    by (simp add: nsPerDay_def)
  have "(12 * y + (m - 1)) div 12 = y" "(12 * y + (m - 1)) mod 12 = m - 1"
    using assms by (simp_all add: div_pos_pos_trivial mod_pos_pos_trivial)
  then show "time_Year (time_Date y m 1 0 0 0 0) = y" "time_Month (time_Date y m 1 0 0 0 0) = m"
    by (simp_all add: time_Year_def time_Month_def first_of_month d)
qed

lemma time_AddDate_days: "time_AddDate t 0 0 d = t + d * nsPerDay"
proof -
  define z where "z = t div nsPerDay"
  define k where "k = month_index z"
  have k: "12 * (k div 12) + (k mod 12 + 1 - 1) = k"
    by simp
  have t: "t = z * nsPerDay + t mod nsPerDay"
    by (simp add: z_def)
  have "time_AddDate t 0 0 d = (z + d) * nsPerDay + t mod nsPerDay"
    unfolding time_AddDate_def time_Date_def time_Year_def time_Month_def time_Day_def
      z_def[symmetric] k_def[symmetric]
    by (simp add: k nsPerDay_def)
  then show ?thesis using t by (simp add: algebra_simps)
qed

subsection \<open>Order of keys\<close>

lemma lex_append_same_length:
  fixes xs ys :: "'a::linorder list"
  shows "length xs = length ys \<Longrightarrow> (xs @ u < ys @ v \<longleftrightarrow> xs < ys \<or> (xs = ys \<and> u < v))"
  by (induction xs ys rule: list_induct2) auto

lemma char_of_less: "(char_of (a::nat) < char_of (b::nat)) = (a mod 256 < b mod 256)"
  by (simp add: less_char_def)

fun be_digits :: "nat \<Rightarrow> nat \<Rightarrow> bytes" where
  "be_digits 0 n = []"
| "be_digits (Suc k) n = be_digits k (n div 256) @ [char_of n]"

lemma length_be_digits [simp]: "length (be_digits k n) = k"
  by (induction k arbitrary: n) auto

lemma base_split_arith:
  fixes qn rn qm rm :: nat
  shows "rn < 256 \<Longrightarrow> rm < 256 \<Longrightarrow>
    (256 * qn + rn < 256 * qm + rm \<longleftrightarrow> qn < qm \<or> (qn = qm \<and> rn < rm))"
  by arith

lemma nat_lex_split: 
  fixes n m :: nat
  shows "n < m \<longleftrightarrow> n div 256 < m div 256 \<or> (n div 256 = m div 256 \<and> n mod 256 < m mod 256)"
proof -
  have "n = 256 * (n div 256) + n mod 256" "m = 256 * (m div 256) + m mod 256"
    by simp_all
  then have "n < m \<longleftrightarrow> 256 * (n div 256) + n mod 256 < 256 * (m div 256) + m mod 256"
    by simp
  also have "\<dots> \<longleftrightarrow> n div 256 < m div 256 \<or> (n div 256 = m div 256 \<and> n mod 256 < m mod 256)"
    by (rule base_split_arith) simp_all
  finally show ?thesis .
qed

lemma nat_eq_split:
  fixes n m :: nat
  shows "n = m \<longleftrightarrow> n div 256 = m div 256 \<and> n mod 256 = m mod 256"
  by (metis mod_div_decomp)

lemma div_bound: "(n::nat) < 256 ^ Suc k \<Longrightarrow> n div 256 < 256 ^ k"
  by (simp add: less_mult_imp_div_less mult.commute)

lemma be_digits_order:
  "n < 256 ^ k \<Longrightarrow> m < 256 ^ k \<Longrightarrow>
     (be_digits k n < be_digits k m \<longleftrightarrow> n < m) \<and> (be_digits k n = be_digits k m \<longleftrightarrow> n = m)"
proof (induction k arbitrary: n m)
  case 0
  then show ?case by simp
next
  case (Suc k)
  note IH = Suc.IH[OF div_bound[OF Suc.prems(1)] div_bound[OF Suc.prems(2)]]
  have lt: "be_digits (Suc k) n < be_digits (Suc k) m \<longleftrightarrow>
      n div 256 < m div 256 \<or> (n div 256 = m div 256 \<and> n mod 256 < m mod 256)"
    using IH by (simp add: lex_append_same_length char_of_less)
  have eq: "be_digits (Suc k) n = be_digits (Suc k) m \<longleftrightarrow>
      n div 256 = m div 256 \<and> n mod 256 = m mod 256"
    using IH by (simp add: take_bit_eq_mod)
  show ?case
    using lt eq nat_lex_split[of n m] nat_eq_split[of n m] by blast
qed

lemma be_digits_6: "be_digits 6 n =
     [char_of (n div 256 ^ 5), char_of (n div 256 ^ 4),
      char_of (n div 256 ^ 3), char_of (n div 256 ^ 2),
      char_of (n div 256), char_of n]"
proof -
  have s: "6 = Suc (Suc (Suc (Suc (Suc (Suc 0)))))" by simp
  show ?thesis unfolding s be_digits.simps by (simp add: div_mult2_eq[symmetric])
qed

lemma unat_drop_bit_64: "unat (drop_bit k (w :: 64 word)) = unat w div 2 ^ k"
  by (subst unat_drop_bit_eq) (rule drop_bit_eq_div)

lemma time_bytes_be: "time_bytes ms = be_digits 6 (unat ms)"
  by (simp add: time_bytes_def byte_def be_digits_6 unat_drop_bit_64)

lemma length_time_bytes [simp]: "length (time_bytes ms) = 6"
  by (simp add: time_bytes_def)

lemma time_bytes_order:
  assumes "ms1 \<le> maxTime" "ms2 \<le> maxTime"
  shows "(time_bytes ms1 < time_bytes ms2 \<longleftrightarrow> ms1 < ms2)
       \<and> (time_bytes ms1 = time_bytes ms2 \<longleftrightarrow> ms1 = ms2)"
proof -
  have "unat ms1 \<le> unat maxTime" "unat ms2 \<le> unat maxTime"
    using assms by (simp_all add: word_le_nat_alt)
  then have b: "unat ms1 < 256 ^ 6" "unat ms2 < 256 ^ 6"
    by (simp_all add: maxTime_def)
  show ?thesis
    using be_digits_order[OF b] by (simp add: time_bytes_be word_less_nat_alt word_unat_eq_iff)
qed

lemma ms_split: "(t::int) div 1000000000 * 1000 + t mod 1000000000 div 1000000 = t div 1000000"
proof -
  define q where "q = t div 1000000000"
  define r where "r = t mod 1000000000"
  have t: "t = r + 1000000 * (q * 1000)"
    by (simp add: q_def r_def)
  have "(r + 1000000 * (q * 1000)) div 1000000 = q * 1000 + r div 1000000"
    by (subst div_mult_self2) simp_all
  then show ?thesis
    unfolding q_def[symmetric] r_def[symmetric] t[symmetric] by simp
qed

lemma ulid_Timestamp_eq: "ulid_Timestamp t = word_of_int (t div 1000000)"
proof -
  have "ulid_Timestamp t = word_of_int (t div 1000000000 * 1000 + t mod 1000000000 div 1000000)"
    unfolding ulid_Timestamp_def by (simp only: word_of_int_hom_syms of_int_numeral) 
  then show ?thesis by (simp only: ms_split)
qed

lemma unat_word_of_int_64:
  assumes "0 \<le> x" "x < 2 ^ 64"
  shows "unat (word_of_int x :: 64 word) = nat x"
proof -
  have "uint (word_of_int x :: 64 word) = x mod 2 ^ 64"
    by (simp add: uint_word_of_int)
  also have "\<dots> = x" using assms by simp
  finally show ?thesis by (simp add: unat_eq_nat_uint)
qed

lemma ulid_Timestamp_in_range:
  assumes "0 \<le> t" "t < 281474976710656000000"
  shows "unat (ulid_Timestamp t) = nat (t div 1000000)" and "ulid_Timestamp t \<le> maxTime"
proof -
  have x: "0 \<le> t div 1000000" "t div 1000000 < 281474976710656"
    using assms by simp_all
  then show u: "unat (ulid_Timestamp t) = nat (t div 1000000)"
    by (simp add: ulid_Timestamp_eq unat_word_of_int_64)
  have "unat (ulid_Timestamp t) \<le> unat maxTime"
    using x by (simp add: u maxTime_def)
  then show "ulid_Timestamp t \<le> maxTime"
    by (simp add: word_le_nat_alt)
qed

lemma ulid_Timestamp_mono:
  assumes "0 \<le> t1" "t2 < 281474976710656000000" "t1 div 1000000 < t2 div 1000000"
  shows "ulid_Timestamp t1 \<le> maxTime \<and> ulid_Timestamp t2 \<le> maxTime
       \<and> ulid_Timestamp t1 < ulid_Timestamp t2"
proof -
  have "t1 < t2"
    using assms(3) zdiv_mono1[of t2 t1 1000000] by linarith
  have r1: "0 \<le> t1" "t1 < 281474976710656000000" using assms \<open>t1 < t2\<close> by linarith+
  have r2: "0 \<le> t2" "t2 < 281474976710656000000" using assms \<open>t1 < t2\<close> by linarith+
  have "unat (ulid_Timestamp t1) < unat (ulid_Timestamp t2)"
    using assms(3) r1 r2 by (simp add: ulid_Timestamp_in_range(1) nat_less_iff)
  then show ?thesis
    using ulid_Timestamp_in_range(2)[OF r1] ulid_Timestamp_in_range(2)[OF r2]
    by (simp add: word_less_nat_alt)
qed

text \<open>
  C7. For every time, the lower-bound key (fill \<open>0x00\<close>) is below the upper-bound key
  (fill \<open>0xFF\<close>). For two times whose millisecond timestamps fit the 48-bit field of the
  key (from the epoch up to \<open>2^48\<close> milliseconds after it), the upper-bound key of the
  one with the smaller millisecond is below the lower-bound key of the other.
\<close>

theorem timeBoundKey_order:
  "timeBoundKey t (CHR 0x00) < timeBoundKey t (CHR 0xFF)
   \<and> (0 \<le> t1 \<and> t2 < 281474976710656000000 \<and> t1 div 1000000 < t2 div 1000000
        \<longrightarrow> timeBoundKey t1 (CHR 0xFF) < timeBoundKey t2 (CHR 0x00))"
proof (intro conjI impI)
  show "timeBoundKey t (CHR 0x00) < timeBoundKey t (CHR 0xFF)"
    by (simp add: timeBoundKey_def lex_append_same_length eval_nat_numeral)
next
  assume "0 \<le> t1 \<and> t2 < 281474976710656000000 \<and> t1 div 1000000 < t2 div 1000000"
  then have "ulid_Timestamp t1 \<le> maxTime \<and> ulid_Timestamp t2 \<le> maxTime
       \<and> ulid_Timestamp t1 < ulid_Timestamp t2"
    using ulid_Timestamp_mono by blast
  then have "time_bytes (ulid_Timestamp t1) < time_bytes (ulid_Timestamp t2)"
    using time_bytes_order by blast
  then show "timeBoundKey t1 (CHR 0xFF) < timeBoundKey t2 (CHR 0x00)"
    by (simp add: timeBoundKey_def lex_append_same_length)
qed

theorem timeBoundKey_order_witness:
  "timeBoundKey 1771502400000000000 (CHR 0x00) < timeBoundKey 1771502400000000000 (CHR 0xFF)
   \<and> timeBoundKey 1771502400000999999 (CHR 0xFF) < timeBoundKey 1771502400001000000 (CHR 0x00)"
  using timeBoundKey_order[of 1771502400000000000 1771502400000999999 1771502400001000000]
  by simp

text \<open>
  Without the bound the second half fails: \<open>2^48\<close> milliseconds does not fit six bytes,
  and the key of the later time starts again at zero.
\<close>

theorem timeBoundKey_order_overflow:
  "(281474976710655000000::int) div 1000000 < 281474976710656000000 div 1000000
   \<and> \<not> timeBoundKey 281474976710655000000 (CHR 0xFF)
         < timeBoundKey 281474976710656000000 (CHR 0x00)"
  by (simp add: timeBoundKey_def time_bytes_def ulid_Timestamp_def byte_def drop_bit_eq_div
      less_char_def)


lemma makeKey_Inr:
  assumes "makeKey t spanID src = Inr (k, r)"
  shows "ulid_Timestamp t \<le> maxTime"
    and "k = time_bytes (ulid_Timestamp t) @ take 10 src @ take 8 (spanID @ replicate 8 (CHR 0x00))"
    and "10 \<le> length src" and "r = drop 10 src"
  using assms
  by (auto simp: makeKey_def ulid_New_def io_ReadFull_def split: if_splits sum.splits)

lemma length_makeKey: "makeKey t spanID src = Inr (k, r) \<Longrightarrow> length k = 24"
  by (auto simp: makeKey_def ulid_New_def io_ReadFull_def split: if_splits sum.splits)

lemma int64_time_key:
  assumes "- 9223372036854775808 \<le> t" "t < 9223372036854775808" "ulid_Timestamp t \<le> maxTime"
  shows "0 \<le> t" and "unat (ulid_Timestamp t) = nat (t div 1000000)"
proof -
  show "0 \<le> t"
  proof (rule ccontr)
    assume "\<not> 0 \<le> t"
    then have neg: "t div 1000000 < 0" "- 9223372036855 \<le> t div 1000000"
      using assms(1) by simp_all
    have "uint (ulid_Timestamp t) = (t div 1000000) mod 2 ^ 64"
      by (simp add: ulid_Timestamp_eq uint_word_of_int)
    also have "\<dots> = (t div 1000000 + 2 ^ 64) mod 2 ^ 64"
      by simp
    also have "\<dots> = t div 1000000 + 2 ^ 64"
      using neg by (intro mod_pos_pos_trivial) simp_all
    finally have "uint maxTime < uint (ulid_Timestamp t)"
      using neg by (simp add: maxTime_def)
    then show False
      using assms(3) by (simp add: word_le_def)
  qed
  then show "unat (ulid_Timestamp t) = nat (t div 1000000)"
    using assms(2) by (simp add: ulid_Timestamp_in_range(1))
qed

lemma makeKey_key_order:
  assumes "makeKey t1 sid1 src1 = Inr (k1, r1)" and "makeKey t2 sid2 src2 = Inr (k2, r2)"
    and "- 9223372036854775808 \<le> t1" and "t1 < 9223372036854775808"
    and "- 9223372036854775808 \<le> t2" and "t2 < 9223372036854775808"
  shows "k1 < k2 \<longleftrightarrow>
           t1 div 1000000 < t2 div 1000000
           \<or> (t1 div 1000000 = t2 div 1000000
               \<and> (take 10 src1 < take 10 src2
                   \<or> (take 10 src1 = take 10 src2
                       \<and> take 8 (sid1 @ replicate 8 (CHR 0x00))
                           < take 8 (sid2 @ replicate 8 (CHR 0x00)))))"
proof -
  define ms1 where "ms1 = ulid_Timestamp t1"
  define ms2 where "ms2 = ulid_Timestamp t2"
  define p1 where "p1 = take 8 (sid1 @ replicate 8 (CHR 0x00))"
  define p2 where "p2 = take 8 (sid2 @ replicate 8 (CHR 0x00))"
  have m: "ms1 \<le> maxTime" "ms2 \<le> maxTime"
    and k: "k1 = time_bytes ms1 @ take 10 src1 @ p1" "k2 = time_bytes ms2 @ take 10 src2 @ p2"
    and l: "10 \<le> length src1" "10 \<le> length src2"
    using makeKey_Inr[OF assms(1)] makeKey_Inr[OF assms(2)]
    by (simp_all add: ms1_def ms2_def p1_def p2_def)
  have n: "0 \<le> t1" "0 \<le> t2" "unat ms1 = nat (t1 div 1000000)" "unat ms2 = nat (t2 div 1000000)"
    using int64_time_key[OF assms(3,4)] int64_time_key[OF assms(5,6)] m
    by (simp_all add: ms1_def ms2_def)
  have nn: "0 \<le> t1 div 1000000" "0 \<le> t2 div 1000000"
    using n(1,2) by simp_all
  have lt: "ms1 < ms2 \<longleftrightarrow> t1 div 1000000 < t2 div 1000000"
    unfolding word_less_nat_alt n(3,4) using nn by linarith
  have eq: "ms1 = ms2 \<longleftrightarrow> t1 div 1000000 = t2 div 1000000"
    unfolding word_unat_eq_iff n(3,4) using nn by linarith
  have key: "k1 < k2 \<longleftrightarrow> ms1 < ms2 \<or> (ms1 = ms2 \<and> take 10 src1 @ p1 < take 10 src2 @ p2)"
    using time_bytes_order[OF m] by (simp add: k lex_append_same_length)
  have "length (take 10 src1) = length (take 10 src2)"
    using l by simp
  then have suffix: "take 10 src1 @ p1 < take 10 src2 @ p2 \<longleftrightarrow>
      take 10 src1 < take 10 src2 \<or> (take 10 src1 = take 10 src2 \<and> p1 < p2)"
    by (rule lex_append_same_length)
  show ?thesis
    using key suffix lt eq unfolding p1_def p2_def by blast
qed

lemma start_time_key:
  assumes "0 < StartTimeUnixNano span" and "spanStartTime span e = (t, e')"
    and "makeKey t sid src = Inr (k, r)"
  shows "- 9223372036854775808 \<le> t" and "t < 9223372036854775808"
    and "t div 1000000 = start_ms span" and "e' = e"
proof -
  have t: "t = sint (StartTimeUnixNano span)" and e: "e' = e"
    using assms(1,2) by (simp_all add: spanStartTime_def)
  show lo: "- 9223372036854775808 \<le> t" and hi: "t < 9223372036854775808"
    using sint_ge[of "StartTimeUnixNano span"] sint_lt[of "StartTimeUnixNano span"]
    by (simp_all add: t)
  have "0 \<le> t"
    using int64_time_key(1)[OF lo hi] makeKey_Inr(1)[OF assms(3)] by simp
  moreover have "t < 2 ^ 64"
    using hi by simp
  ultimately have "take_bit 64 t = t"
    by (rule take_bit_int_eq_self)
  then have "t = uint (StartTimeUnixNano span)"
    using uint_sint[of "StartTimeUnixNano span"] by (simp add: t)
  then show "t div 1000000 = start_ms span"
    by (simp add: start_ms_def)
  show "e' = e" by (rule e)
qed

text \<open>
  C4. Two records written for spans with a start time other than zero compare by key as
  their start times do at millisecond resolution: the earlier millisecond has the smaller
  key, a smaller key never has the later millisecond, and within one millisecond the order
  is that of the 10 random bytes drawn for the keys, then that of the span identifiers as
  the keys hold them. The keys are those the write path builds: \<open>spanStartTime\<close> of the
  span, then \<open>makeKey\<close> with the span's identifier and the entropy source. A span whose
  start time is zero is keyed under the time of writing, and its key says nothing of its
  start time: see the store of \<open>zero_start_batch\<close> in the section on the write path.
\<close>
theorem record_key_order:
  assumes "0 < StartTimeUnixNano sp1" and "0 < StartTimeUnixNano sp2"
    and "spanStartTime sp1 e1 = (t1, e1')"
    and "makeKey t1 (SpanId sp1) (entropy e1') = Inr (k1, r1)"
    and "spanStartTime sp2 e2 = (t2, e2')"
    and "makeKey t2 (SpanId sp2) (entropy e2') = Inr (k2, r2)"
  shows "(start_ms sp1 < start_ms sp2 \<longrightarrow> k1 < k2)
       \<and> (k1 < k2 \<longrightarrow> start_ms sp1 \<le> start_ms sp2)
       \<and> (start_ms sp1 = start_ms sp2 \<longrightarrow>
            (k1 < k2 \<longleftrightarrow>
               take 10 (entropy e1) < take 10 (entropy e2)
               \<or> (take 10 (entropy e1) = take 10 (entropy e2)
                   \<and> padded_id sp1 < padded_id sp2)))"
proof -
  note a = start_time_key[OF assms(1,3,4)]
  note b = start_time_key[OF assms(2,5,6)]
  show ?thesis
    unfolding makeKey_key_order[OF assms(4,6) a(1,2) b(1,2)] a(3,4) b(3,4) padded_id_def
    by auto
qed

lemma example_keys:
  "makeKey 1771502400000000000 ''span0001'' ''0123456789abcdefghij''
     = Inr (time_bytes 1771502400000 @ ''0123456789'' @ ''span0001'', ''abcdefghij'')"
  "makeKey 1771502400001000000 ''span0002'' ''00000000000000000000''
     = Inr (time_bytes 1771502400001 @ ''0000000000'' @ ''span0002'', ''0000000000'')"
  "makeKey 1771502400000500000 ''span0002'' ''00000000000000000000''
     = Inr (time_bytes 1771502400000 @ ''0000000000'' @ ''span0002'', ''0000000000'')"
  by (simp_all add: makeKey_def ulid_New_def io_ReadFull_def ulid_Timestamp_def maxTime_def)

lemma example_start:
  "0 < w \<Longrightarrow> spanStartTime (example_span trace spanID w) e = (sint w, e)"
  by (simp add: spanStartTime_def example_span_def)

theorem record_key_order_witness:
  "time_bytes 1771502400000 @ ''0123456789'' @ ''span0001''
     < time_bytes 1771502400001 @ ''0000000000'' @ ''span0002''
   \<and> start_ms (example_span ''TTTTTTTTTTTTTTTT'' ''span0002'' 1771502400000500000)
     = start_ms (example_span ''TTTTTTTTTTTTTTTT'' ''span0001'' 1771502400000000000)
   \<and> time_bytes 1771502400000 @ ''0000000000'' @ ''span0002''
     < time_bytes 1771502400000 @ ''0123456789'' @ ''span0001''"
proof -
  have s: "start_ms (example_span ''TTTTTTTTTTTTTTTT'' ''span0001'' 1771502400000000000)
             = 1771502400000"
    "start_ms (example_span ''TTTTTTTTTTTTTTTT'' ''span0002'' 1771502400001000000)
             = 1771502400001"
    "start_ms (example_span ''TTTTTTTTTTTTTTTT'' ''span0002'' 1771502400000500000)
             = 1771502400000"
    by (simp_all add: start_ms_def example_span_def)
  have e: "entropy example_env = ''0123456789abcdefghij''"
    "entropy repeating_env = ''00000000000000000000''"
    by (simp_all add: example_env_def repeating_env_def)
  have i: "SpanId (example_span trace spanID w) = spanID" for trace spanID w
    by (simp add: example_span_def)
  have z: "0 < StartTimeUnixNano (example_span trace spanID 1771502400000000000)"
    "0 < StartTimeUnixNano (example_span trace spanID 1771502400001000000)"
    "0 < StartTimeUnixNano (example_span trace spanID 1771502400000500000)"
    for trace spanID
    by (simp_all add: example_span_def)
  have st: "spanStartTime (example_span trace spanID 1771502400000000000) en
              = (1771502400000000000, en)"
    "spanStartTime (example_span trace spanID 1771502400001000000) en
              = (1771502400001000000, en)"
    "spanStartTime (example_span trace spanID 1771502400000500000) en
              = (1771502400000500000, en)"
    for trace spanID en
    by (simp_all add: example_start)
  show ?thesis
    using record_key_order[OF z(1) z(2) st(1) _ st(2),
        of "''TTTTTTTTTTTTTTTT''" "''span0001''" example_env _ _
           "''TTTTTTTTTTTTTTTT''" "''span0002''" repeating_env,
        unfolded i e, OF example_keys(1) example_keys(2)]
      record_key_order[OF z(3) z(1) st(3) _ st(1),
        of "''TTTTTTTTTTTTTTTT''" "''span0002''" repeating_env _ _
           "''TTTTTTTTTTTTTTTT''" "''span0001''" example_env,
        unfolded i e, OF example_keys(3) example_keys(1)]
    by (simp add: s less_char_def)
qed

subsection \<open>Anchor lookup\<close>

lemma find_cursor_wrong_length:
  "length spanID \<noteq> 8 \<Longrightarrow> find_cursor cd spanID monthKey entries = None"
  by (induction entries) auto

lemma find_outer_wrong_length:
  "length spanID \<noteq> 8 \<Longrightarrow> find_outer cd spanID outer entries None = None"
  by (induction entries) (auto simp: find_cursor_wrong_length split: option.splits)

lemma find_root_wrong_length:
  "length spanID \<noteq> 8 \<Longrightarrow> find_root cd spanID r None = None"
  by (induction r) (auto simp: find_outer_wrong_length)

text \<open>
  C10. For a span identifier that is not 8 bytes long \<^verbatim>\<open>GetSpanTree\<close> on an open store
  returns an empty trace identifier, no spans and no error: the anchor search compares it
  with the last 8 bytes of 24-byte keys only, and every key \<^verbatim>\<open>makeKey\<close> builds has
  24 bytes.
\<close>

theorem GetSpanTree_wrong_length:
  assumes "db s = Some r" and "length spanID \<noteq> 8"
  shows "GetSpanTree cd s spanID = ([], [], None)
       \<and> (makeKey t sid src = Inr (k, src') \<longrightarrow> length k = 24 \<and> length (drop 16 k) = 8)"
  using assms
  by (auto simp: GetSpanTree_def findSpanByID_def find_root_wrong_length dest: length_makeKey)

subsection \<open>Newest-first reader\<close>

lemma records_of_Nil [simp]: "records_of cd [] = []"
  by (simp add: records_of_def)

lemma records_of_Cons:
  "records_of cd ((k, v) # rest) =
     (case decodeSpan cd (val_bytes v) of Inl e \<Rightarrow> [] | Inr sp \<Rightarrow> [(k, sp)]) @ records_of cd rest"
  by (simp add: records_of_def)

lemma spans_cursor_eq:
  "spans_cursor cd month limit entries result =
     result @ take (nat limit - length result)
       (map (\<lambda>(k, sp). buildSummary cd sp month) (records_of cd entries))"
proof (induction entries arbitrary: result)
  case Nil
  then show ?case by simp
next
  case (Cons e entries)
  obtain k v where e: "e = (k, v)" by (cases e)
  show ?case
  proof (cases "int (length result) < limit")
    case False
    then have "nat limit - length result = 0" by linarith
    then show ?thesis using False by (simp add: e)
  next
    case True
    then have n: "nat limit - length result = Suc (nat limit - Suc (length result))"
      by linarith
    show ?thesis
      using True by (simp add: e Cons.IH records_of_Cons n split: sum.splits)
  qed
qed

lemma take_take_append:
  "take (n - length (take n xs)) ys = take (n - length xs) ys"
  by (cases "length xs \<le> n") (simp_all add: min_def)

lemma spans_months_eq:
  "spans_months cd outer limit months result =
     result @ take (nat limit - length result)
       (concat (map (\<lambda>m. case Bucket outer m of
                           None \<Rightarrow> []
                         | Some inner \<Rightarrow>
                             map (\<lambda>(k, sp). buildSummary cd sp m) (month_records cd inner))
                months))"
proof (induction months arbitrary: result)
  case Nil
  then show ?case by simp
next
  case (Cons m months)
  show ?case
  proof (cases "limit \<le> int (length result)")
    case True
    then have "nat limit - length result = 0" by linarith
    then show ?thesis using True by simp
  next
    case False
    show ?thesis
    proof (cases "Bucket outer m")
      case None
      then show ?thesis using False by (simp add: Cons.IH)
    next
      case (Some inner)
      define n where "n = nat limit - length result"
      define S where "S = map (\<lambda>(k, sp). buildSummary cd sp m) (month_records cd inner)"
      define C where "C = concat (map (\<lambda>m. case Bucket outer m of
                           None \<Rightarrow> []
                         | Some inner \<Rightarrow>
                             map (\<lambda>(k, sp). buildSummary cd sp m) (month_records cd inner))
                months)"
      have step: "spans_cursor cd m limit (rev inner) result = result @ take n S"
        by (simp add: spans_cursor_eq n_def S_def month_records_def)
      have len: "nat limit - length (result @ take n S) = n - length (take n S)"
        by (simp add: n_def)
      have "spans_months cd outer limit (m # months) result =
          spans_months cd outer limit months (result @ take n S)"
        using False Some step by simp
      also have "\<dots> = (result @ take n S) @ take (nat limit - length (result @ take n S)) C"
        unfolding C_def by (rule Cons.IH)
      also have "\<dots> = result @ take n (S @ C)"
        unfolding len take_take_append by simp
      finally show ?thesis
        using Some by (simp add: n_def S_def C_def)
    qed
  qed
qed

lemma summaries_newest_first:
  "summaries cd (newest_first cd outer) =
     concat (map (\<lambda>m. case Bucket outer m of
                           None \<Rightarrow> []
                         | Some inner \<Rightarrow>
                             map (\<lambda>(k, sp). buildSummary cd sp m) (month_records cd inner))
                (sort_reverse (bucket_names outer)))"
proof -
  have "summaries cd (concat (map (\<lambda>m. case Bucket outer m of
                         None \<Rightarrow> []
                       | Some inner \<Rightarrow> map (Pair m) (month_records cd inner)) ms))
      = concat (map (\<lambda>m. case Bucket outer m of
                           None \<Rightarrow> []
                         | Some inner \<Rightarrow>
                             map (\<lambda>(k, sp). buildSummary cd sp m) (month_records cd inner)) ms)"
    for ms
    by (induction ms) (auto simp: summaries_def split: option.splits)
  then show ?thesis by (simp add: newest_first_def)
qed

lemma GetSpans_eq:
  assumes "db s = Some r" "tx_Bucket r service = Some outer"
  shows "GetSpans cd s service limit =
     (summaries cd (take (nat (if limit \<le> 0 then 50 else limit)) (newest_first cd outer)), None)"
proof -
  have "summaries cd (take n xs) = take n (summaries cd xs)" for n xs
    by (simp add: summaries_def take_map)
  then show ?thesis
    using assms by (simp add: GetSpans_def spans_months_eq summaries_newest_first Let_def)
qed


lemma records_of_keys: "x \<in> set (records_of cd entries) \<Longrightarrow> fst x \<in> fst ` set entries"
  by (induction entries) (auto simp: records_of_Cons split: sum.splits)

lemma records_of_sorted:
  "sorted_wrt (\<lambda>a b. b < a) (map fst entries)
   \<Longrightarrow> sorted_wrt (\<lambda>a b. fst b < fst a) (records_of cd entries)"
proof (induction entries)
  case Nil
  then show ?case by simp
next
  case (Cons e entries)
  obtain k v where e: "e = (k, v)" by (cases e)
  have "\<forall>y \<in> fst ` set entries. y < k"
    using Cons.prems by (auto simp: e)
  then have "\<forall>x \<in> set (records_of cd entries). fst x < k"
    using records_of_keys by blast
  then show ?case
    using Cons by (auto simp: e records_of_Cons split: sum.splits)
qed

lemma month_records_sorted:
  "keys_sorted inner \<Longrightarrow> sorted_wrt (\<lambda>a b. fst b < fst a) (month_records cd inner)"
  unfolding month_records_def keys_sorted_def
  by (rule records_of_sorted) (simp add: rev_map[symmetric] sorted_wrt_rev)

lemma bucket_names_subset: "set (bucket_names b) \<subseteq> fst ` set b"
  by (induction b rule: bucket_names.induct) auto

lemma bucket_names_sorted: "keys_sorted b \<Longrightarrow> sorted_wrt (<) (bucket_names b)"
proof (induction b rule: bucket_names.induct)
  case 1
  then show ?case by simp
next
  case (2 k c rest)
  have "\<forall>y \<in> fst ` set rest. k < y"
    using "2.prems" by (auto simp: keys_sorted_def)
  then have "\<forall>n \<in> set (bucket_names rest). k < n"
    using bucket_names_subset[of rest] by blast
  then show ?case
    using 2 by (simp add: keys_sorted_def)
next
  case (3 k v rest)
  then show ?case by (simp add: keys_sorted_def)
qed

lemma sort_reverse_sorted:
  assumes "sorted_wrt (<) ns"
  shows "sorted_wrt (\<lambda>a b. b < a) (sort_reverse ns)"
proof -
  have "sorted ns"
    using assms by (rule sorted_wrt_mono_rel[rotated]) simp
  then have "sort ns = ns"
    by (simp add: sort_key_id_if_sorted)
  then show ?thesis
    using assms by (simp add: sort_reverse_def sorted_wrt_rev)
qed

lemma sorted_wrt_concat_map:
  assumes "sorted_wrt R xs"
    and "\<And>x. x \<in> set xs \<Longrightarrow> sorted_wrt Q (f x)"
    and "\<And>x y a b. R x y \<Longrightarrow> a \<in> set (f x) \<Longrightarrow> b \<in> set (f y) \<Longrightarrow> Q a b"
  shows "sorted_wrt Q (concat (map f xs))"
  using assms
proof (induction xs)
  case Nil
  then show ?case by simp
next
  case (Cons x xs)
  then show ?case
    by (auto simp: sorted_wrt_append)
qed

lemma Bucket_wf:
  assumes "wf_bucket outer" "Bucket outer m = Some inner"
  shows "keys_sorted inner"
proof -
  have "map_of outer m = Some (Sub inner)"
    using assms(2) by (auto simp: Bucket_def split: option.splits node.splits)
  then have "(m, Sub inner) \<in> set outer"
    by (rule map_of_SomeD)
  then show ?thesis
    using assms(1) by (auto simp: wf_bucket_def list_all_iff)
qed

lemma newest_first_sorted:
  assumes "wf_bucket outer"
  shows "sorted_wrt newer (newest_first cd outer)"
  unfolding newest_first_def
proof (rule sorted_wrt_concat_map[where R = "\<lambda>a b. b < a"])
  show "sorted_wrt (\<lambda>a b. b < a) (sort_reverse (bucket_names outer))"
    using assms by (simp add: wf_bucket_def bucket_names_sorted sort_reverse_sorted)
next
  fix m
  show "sorted_wrt newer
     (case Bucket outer m of None \<Rightarrow> [] | Some inner \<Rightarrow> map (Pair m) (month_records cd inner))"
    using month_records_sorted[OF Bucket_wf[OF assms], of m _ cd]
    by (auto simp: sorted_wrt_map newer_def split: option.splits)
next
  fix m m' :: string and a b :: "string \<times> bytes \<times> Span"
  assume "m' < m"
    and "a \<in> set (case Bucket outer m of None \<Rightarrow> []
                  | Some inner \<Rightarrow> map (Pair m) (month_records cd inner))"
    and "b \<in> set (case Bucket outer m' of None \<Rightarrow> []
                  | Some inner \<Rightarrow> map (Pair m') (month_records cd inner))"
  then show "newer a b"
    by (auto simp: newer_def split: option.splits)
qed

text \<open>
  C1. On an open store \<^verbatim>\<open>GetSpans(service, limit)\<close> returns no error and the summaries
  of the first \<open>limit\<close> decodable records of the service in newest-first order (months in
  descending order of their names, keys descending within a month); the effective limit is
  50 when \<open>limit \<le> 0\<close>; in a well-formed service bucket that order is strictly descending
  by month name and key; a service without a bucket gives the empty result.
\<close>

theorem GetSpans_newest_first:
  assumes "db s = Some r"
  shows "(tx_Bucket r service = None \<longrightarrow> GetSpans cd s service limit = ([], None))
       \<and> (\<forall>outer. tx_Bucket r service = Some outer \<longrightarrow>
            GetSpans cd s service limit =
              (summaries cd (take (nat (if limit \<le> 0 then 50 else limit)) (newest_first cd outer)),
               None)
            \<and> (wf_bucket outer \<longrightarrow> sorted_wrt newer (newest_first cd outer)))
       \<and> int (length (fst (GetSpans cd s service limit))) \<le> (if limit \<le> 0 then 50 else limit)"
proof (intro conjI allI impI)
  assume "tx_Bucket r service = None"
  then show "GetSpans cd s service limit = ([], None)"
    using assms by (simp add: GetSpans_def)
next
  fix outer
  assume "tx_Bucket r service = Some outer"
  then show "GetSpans cd s service limit =
       (summaries cd (take (nat (if limit \<le> 0 then 50 else limit)) (newest_first cd outer)), None)"
    using assms by (rule GetSpans_eq[rotated])
next
  fix outer
  assume "wf_bucket outer"
  then show "sorted_wrt newer (newest_first cd outer)"
    by (rule newest_first_sorted)
next
  show "int (length (fst (GetSpans cd s service limit))) \<le> (if limit \<le> 0 then 50 else limit)"
  proof (cases "tx_Bucket r service")
    case None
    then show ?thesis using assms by (simp add: GetSpans_def)
  next
    case (Some outer)
    then show ?thesis
      using GetSpans_eq[OF assms Some, of cd limit] by (auto simp: summaries_def min_def)
  qed
qed

lemma two_months_wf: "wf_bucket two_months"
  by (simp add: wf_bucket_def keys_sorted_def two_months_def january_def february_def
      time_bytes_def byte_def drop_bit_eq_div char_eval)

lemma two_months_names: "sort_reverse (bucket_names two_months) = [''2026-02'', ''2026-01'']"
  by (simp add: two_months_def sort_reverse_def)

lemma two_months_Bucket:
  "Bucket two_months ''2026-01'' = Some january" "Bucket two_months ''2026-02'' = Some february"
  by (simp_all add: two_months_def Bucket_def)

lemma decode_example:
  "length trace = 16 \<Longrightarrow> length spanID = 8 \<Longrightarrow>
   decodeSpan plain_codec (example_value trace spanID start) =
     Inr \<lparr>TraceId = trace, SpanId = spanID, ParentSpanId = [], Name = [],
          StartTimeUnixNano = from_be (be64 start), EndTimeUnixNano = 0, Status = None\<rparr>"
  by (simp add: example_value_def codec_eval)

lemma decode_corrupt: "decodeSpan plain_codec ''corrupt'' = Inl ErrZlib"
  by (simp add: codec_eval)

lemma two_months_newest:
  "map (\<lambda>(m, k, sp). (m, SpanId sp)) (newest_first plain_codec two_months) =
     [(''2026-02'', ''span0005''), (''2026-02'', ''span0003''),
      (''2026-01'', ''span0002''), (''2026-01'', ''span0001'')]"
  by (simp add: newest_first_def two_months_names two_months_Bucket month_records_def
      records_of_def january_def february_def decode_example decode_corrupt)

theorem GetSpans_newest_first_witness:
  "GetSpans plain_codec two_month_store ''other'' 10 = ([], None)
   \<and> snd (GetSpans plain_codec two_month_store ''svc'' 0) = None
   \<and> length (fst (GetSpans plain_codec two_month_store ''svc'' 0)) = 4
   \<and> map Month (fst (GetSpans plain_codec two_month_store ''svc'' 3))
        = [''2026-02'', ''2026-02'', ''2026-01'']
   \<and> sorted_wrt newer (newest_first plain_codec two_months)"
proof -
  have d: "db two_month_store = Some [(''svc'', two_months)]"
    by (simp add: two_month_store_def)
  have n: "tx_Bucket [(''svc'', two_months)] ''other'' = None"
    "tx_Bucket [(''svc'', two_months)] ''svc'' = Some two_months"
    by (simp_all add: tx_Bucket_def)
  have l: "length (newest_first plain_codec two_months) = 4"
    using arg_cong[OF two_months_newest, of length] by simp
  have m: "map Month (summaries plain_codec (take 3 (newest_first plain_codec two_months)))
      = [''2026-02'', ''2026-02'', ''2026-01'']"
    using arg_cong[OF two_months_newest, of "\<lambda>xs. map fst (take 3 xs)"]
    by (simp add: summaries_def take_map[symmetric] buildSummary_def case_prod_unfold comp_def)
  have ls: "length (summaries plain_codec xs) = length xs" for xs
    by (simp add: summaries_def)
  show ?thesis
    using GetSpans_newest_first[OF d, of "''other''" plain_codec 10]
      GetSpans_newest_first[OF d, of "''svc''" plain_codec 0]
      GetSpans_newest_first[OF d, of "''svc''" plain_codec 3]
    by (simp add: n two_months_wf l m ls)
qed

subsection \<open>Full-scan fetch\<close>

lemma decoded_Nil [simp]: "decoded cd [] = []"
  by (simp add: decoded_def)

lemma decoded_Cons:
  "decoded cd ((k, v) # rest) =
     (case decodeSpan cd (val_bytes v) of Inl e \<Rightarrow> [] | Inr sp \<Rightarrow> [sp]) @ decoded cd rest"
  by (simp add: decoded_def)

lemma trace_inner_eq:
  "trace_inner cd traceID monthKey entries result =
     result @ map (\<lambda>sp. buildSummary cd sp monthKey)
       (filter (\<lambda>sp. hex_EncodeToString (TraceId sp) = traceID) (decoded cd entries))"
  by (induction entries arbitrary: result) (auto simp: decoded_Cons split: sum.splits)

lemma trace_outer_eq:
  "trace_outer cd traceID outer entries result =
     result @ concat (map (\<lambda>m. case Bucket outer m of
         None \<Rightarrow> []
       | Some inner \<Rightarrow> map (\<lambda>sp. buildSummary cd sp m)
           (filter (\<lambda>sp. hex_EncodeToString (TraceId sp) = traceID) (decoded cd inner)))
       (bucket_names entries))"
  by (induction cd traceID outer entries result rule: trace_outer.induct)
     (auto simp: trace_inner_eq split: option.splits)

lemma matching_append [simp]: "matching cd t (xs @ ys) = matching cd t xs @ matching cd t ys"
  by (simp add: matching_def)

lemma matching_Nil [simp]: "matching cd t [] = []"
  by (simp add: matching_def)

lemma matching_Pair:
  "matching cd t (map (Pair m) sps) =
     map (\<lambda>sp. buildSummary cd sp m) (filter (\<lambda>sp. hex_EncodeToString (TraceId sp) = t) sps)"
  by (induction sps) (auto simp: matching_def)

lemma matching_months:
  "matching cd t (concat (map (\<lambda>m. case Bucket outer m of
                           None \<Rightarrow> []
                         | Some inner \<Rightarrow> map (Pair m) (decoded cd inner)) ms))
   = concat (map (\<lambda>m. case Bucket outer m of
         None \<Rightarrow> []
       | Some inner \<Rightarrow> map (\<lambda>sp. buildSummary cd sp m)
           (filter (\<lambda>sp. hex_EncodeToString (TraceId sp) = t) (decoded cd inner))) ms)"
  by (induction ms) (auto simp: matching_Pair split: option.splits)

lemma trace_root_eq:
  "trace_root cd traceID r result = result @ matching cd traceID (stored_spans cd r)"
  by (induction r arbitrary: result)
     (auto simp: stored_spans_def trace_outer_eq matching_months)

lemma of_char_lt_256: "(of_char c :: nat) < 256"
proof -
  have "(of_char c :: nat) mod 256 = of_char c" by simp
  then show ?thesis by (metis mod_less_divisor zero_less_numeral)
qed

lemma hex_EncodeToString_chars: "set (hex_EncodeToString src) \<subseteq> set hextable"
proof -
  have "\<And>n. n < 16 \<Longrightarrow> hextable ! n \<in> set hextable"
    by (rule nth_mem) (simp add: hextable_def)
  moreover have "\<And>c. (of_char c :: nat) div 16 < 16" "\<And>c. (of_char c :: nat) mod 16 < 16"
    using of_char_lt_256 by (simp_all add: less_mult_imp_div_less)
  ultimately show ?thesis
    by (auto simp: hex_EncodeToString_def)
qed

lemma matching_none:
  "list_all (\<lambda>(m, sp). hex_EncodeToString (TraceId sp) \<noteq> t) ps \<Longrightarrow> matching cd t ps = []"
  by (induction ps) (auto simp: matching_def)

lemma matching_not_hex:
  assumes "\<not> set t \<subseteq> set hextable"
  shows "matching cd t ps = []"
proof -
  have "hex_EncodeToString (TraceId sp) \<noteq> t" for sp :: Span
    using assms hex_EncodeToString_chars by metis
  then show ?thesis
    by (auto simp: matching_def filter_empty_conv)
qed

text \<open>
  C9. \<^verbatim>\<open>GetTraceByID\<close> compares its argument, as a string, with the lowercase hex
  encoding of the trace identifier of every stored span. On an open store it returns the
  summaries of the spans that match and no error; when the argument is the encoding of no
  stored span's trace identifier the result is empty, and so it is for every argument with
  a character that is not a lowercase hex digit (uppercase or malformed hex).
\<close>

theorem GetTraceByID_string_match:
  assumes "db s = Some r"
  shows "GetTraceByID cd s traceID = (matching cd traceID (stored_spans cd r), None)
       \<and> (list_all (\<lambda>(m, sp). hex_EncodeToString (TraceId sp) \<noteq> traceID) (stored_spans cd r)
            \<longrightarrow> GetTraceByID cd s traceID = ([], None))
       \<and> (\<not> set traceID \<subseteq> set hextable \<longrightarrow> GetTraceByID cd s traceID = ([], None))"
  using assms
  by (simp add: GetTraceByID_def trace_root_eq matching_none matching_not_hex)

lemma from_be_be64: "from_be (be64 1771502400000000000) = 1771502400000000000"
  by (simp add: from_be_def key_eval char_eval)

lemma stored_example:
  "stored_spans plain_codec (the (db example_store)) =
     [(''2026-02'', \<lparr>TraceId = ''TTTTTTTTTTTTTTTT'', SpanId = ''span0001'',
                          ParentSpanId = [], Name = [],
                          StartTimeUnixNano = from_be (be64 1771502400000000000),
                          EndTimeUnixNano = 0, Status = None\<rparr>)]"
  by (simp add: example_store_def stored_spans_def decoded_def Bucket_def codec_eval)

lemma hex_T: "hex_EncodeToString ''TTTTTTTTTTTTTTTT'' = ''54545454545454545454545454545454''"
  by (simp add: hex_EncodeToString_def hextable_def)

theorem GetTraceByID_string_match_witness:
  "GetTraceByID plain_codec example_store ''5454545454545454545454545454545A'' = ([], None)
   \<and> GetTraceByID plain_codec example_store ''zz'' = ([], None)
   \<and> length (fst (GetTraceByID plain_codec example_store ''54545454545454545454545454545454'')) = 1"
  using GetTraceByID_string_match[of example_store "the (db example_store)" plain_codec
           "''5454545454545454545454545454545A''"]
        GetTraceByID_string_match[of example_store "the (db example_store)" plain_codec
           "''zz''"]
        GetTraceByID_string_match[of example_store "the (db example_store)" plain_codec
           "''54545454545454545454545454545454''"]
  by (simp add: stored_example hex_T matching_def hextable_def) (simp add: example_store_def)

subsection \<open>Retention cleanup\<close>

lemma time_Parse_month_of_name:
  "time_Parse v =
     (case month_of_name v of
        None \<Rightarrow> Inl ErrParse
      | Some (y, m) \<Rightarrow> Inr (time_Date y m 1 0 0 0 0))"
proof (cases "length v = 7")
  case True
  then obtain a b c d e f g where v: "v = [a, b, c, d, e, f, g]"
    by (auto simp: length_Suc_conv eval_nat_numeral)
  show ?thesis
    by (auto simp: v time_Parse_def month_of_name_def Let_def)
next
  case False
  then have "time_Parse v = Inl ErrParse"
    by (auto simp: time_Parse_def split: list.splits)
  then show ?thesis using False by (simp add: month_of_name_def)
qed

lemma month_of_name_range: "month_of_name v = Some (y, m) \<Longrightarrow> 1 \<le> m \<and> m \<le> 12"
  by (auto simp: month_of_name_def Let_def split: if_splits)

lemma following_month_eq: "following_month y m = time_Date y (m + 1) 1 0 0 0 0"
  by (simp add: following_month_def first_of_month)

lemma marked_expired:
  "(case time_Parse monthKey of
      Inl err \<Rightarrow> False
    | Inr t \<Rightarrow> time_Date (time_Year t) (time_Month t + 1) 1 0 0 0 0 < cutoff)
   = expired cutoff monthKey"
  using month_of_name_range[of monthKey]
  by (auto simp: time_Parse_month_of_name expired_def following_month_eq time_Year_Date
      split: option.splits)

lemma cleanup_months_eq:
  "cleanup_months cutoff svcName entries toDelete =
     toDelete @ map (Pair svcName) (filter (expired cutoff) (bucket_names entries))"
proof (induction cutoff svcName entries toDelete rule: cleanup_months.induct)
  case (1 cutoff svcName toDelete)
  then show ?case by simp
next
  case (2 cutoff svcName monthKey v rest toDelete)
  then show ?case by simp
next
  case (3 cutoff svcName monthKey c rest toDelete)
  show ?case
    using 3 marked_expired[where monthKey = monthKey and cutoff = cutoff]
    by (auto simp: Let_def split: sum.splits)
qed

lemma cleanup_collect_eq:
  "cleanup_collect cutoff r toDelete = toDelete @ marked_pairs cutoff r"
  by (induction r arbitrary: toDelete) (auto simp: marked_pairs_def cleanup_months_eq)

lemma map_of_kv_put: "map_of (kv_put k v kvs) = (map_of kvs)(k \<mapsto> v)"
  by (induction kvs) (auto simp: fun_eq_iff)

lemma map_of_kv_delete: "map_of (kv_delete k kvs) = (map_of kvs)(k := None)"
  by (induction kvs) (auto simp: kv_delete_def fun_eq_iff)

lemma map_of_filter_keys:
  "map_of (filter (\<lambda>(k, v). P k) kvs) k = (if P k then map_of kvs k else None)"
  by (induction kvs) auto

lemma months_of_Cons:
  "months_of sv ((svc, m) # ps) = (if svc = sv then m # months_of sv ps else months_of sv ps)"
  by (simp add: months_of_def)

lemma filter_filter_keys:
  "filter (\<lambda>(k, v). k \<notin> set del) (kv_delete m outer) = filter (\<lambda>(k, v). k \<notin> set (m # del)) outer"
  by (induction outer) (auto simp: kv_delete_def)

lemma cleanup_delete_lookup:
  assumes "distinct ps"
    and "\<And>sv m outer. (sv, m) \<in> set ps \<Longrightarrow> map_of r sv = Some outer
           \<Longrightarrow> \<exists>c. map_of outer m = Some (Sub c)"
  shows "\<exists>r'. cleanup_delete ps r = Inr r'
           \<and> (\<forall>sv. map_of r' sv = after_delete (months_of sv ps) (map_of r sv))"
  using assms
proof (induction ps arbitrary: r)
  case Nil
  then show ?case
    by (auto simp: after_delete_def months_of_def split: option.splits)
next
  case (Cons p ps)
  obtain svc m where p: "p = (svc, m)" by (cases p)
  have dist: "distinct ps" and notin: "(svc, m) \<notin> set ps"
    using Cons.prems(1) by (simp_all add: p)
  show ?case
  proof (cases "map_of r svc")
    case None
    have pre: "\<exists>c. map_of outer' m' = Some (Sub c)"
      if "(sv, m') \<in> set ps" "map_of r sv = Some outer'" for sv m' outer'
      using Cons.prems(2)[of sv m' outer'] that by (simp add: p)
    have "\<exists>r'. cleanup_delete ps r = Inr r'
        \<and> (\<forall>sv. map_of r' sv = after_delete (months_of sv ps) (map_of r sv))"
    proof (rule Cons.IH[OF dist])
      fix sv m' outer'
      assume "(sv, m') \<in> set ps" "map_of r sv = Some outer'"
      then show "\<exists>c. map_of outer' m' = Some (Sub c)" by (rule pre)
    qed
    then obtain r' where r': "cleanup_delete ps r = Inr r'"
      "\<forall>sv. map_of r' sv = after_delete (months_of sv ps) (map_of r sv)"
      by blast
    have "cleanup_delete (p # ps) r = Inr r'"
      using None r'(1) by (simp add: p tx_Bucket_def)
    moreover have "map_of r' sv = after_delete (months_of sv (p # ps)) (map_of r sv)" for sv
      using r'(2) None by (cases "sv = svc") (simp_all add: p months_of_Cons after_delete_def)
    ultimately show ?thesis by blast
  next
    case (Some outer)
    obtain c where c: "map_of outer m = Some (Sub c)"
      using Cons.prems(2)[of svc m outer] Some by (auto simp: p)
    define outer1 where "outer1 = kv_delete m outer"
    have del: "DeleteBucket outer m = Inr outer1"
      by (simp add: DeleteBucket_def c outer1_def)
    show ?thesis
    proof (cases "outer1 = []")
      case True
      define r1 where "r1 = kv_delete svc (kv_put svc outer1 r)"
      have m1: "map_of r1 = (map_of r)(svc := None)"
        by (simp add: r1_def map_of_kv_delete map_of_kv_put)
      have pre: "\<exists>c. map_of outer' m' = Some (Sub c)"
        if "(sv, m') \<in> set ps" "map_of r1 sv = Some outer'" for sv m' outer'
        using Cons.prems(2)[of sv m' outer'] that by (auto simp: p m1 split: if_splits)
      have "\<exists>r'. cleanup_delete ps r1 = Inr r'
        \<and> (\<forall>sv. map_of r' sv = after_delete (months_of sv ps) (map_of r1 sv))"
    proof (rule Cons.IH[OF dist])
      fix sv m' outer'
      assume "(sv, m') \<in> set ps" "map_of r1 sv = Some outer'"
      then show "\<exists>c. map_of outer' m' = Some (Sub c)" by (rule pre)
    qed
    then obtain r' where r': "cleanup_delete ps r1 = Inr r'"
      "\<forall>sv. map_of r' sv = after_delete (months_of sv ps) (map_of r1 sv)"
      by blast
      have "tx_DeleteBucket (kv_put svc outer1 r) svc = Inr r1"
        by (simp add: tx_DeleteBucket_def map_of_kv_put r1_def)
      then have "cleanup_delete (p # ps) r = Inr r'"
        using Some del True r'(1) by (simp add: p tx_Bucket_def)
      moreover have "map_of r' sv = after_delete (months_of sv (p # ps)) (map_of r sv)" for sv
      proof (cases "sv = svc")
        case sv: True
        have e: "months_of svc (p # ps) = m # months_of svc ps"
          by (simp add: p months_of_Cons)
        have f: "filter (\<lambda>(k, v). k \<notin> set (m # months_of svc ps)) outer = []"
          using True filter_filter_keys[of "months_of svc ps" m outer] by (simp add: outer1_def)
        have "map_of r' svc = None"
          using r'(2) by (simp add: m1 after_delete_def)
        moreover have "after_delete (months_of svc (p # ps)) (map_of r svc) = None"
          by (simp only: e Some after_delete_def option.case Let_def f) simp
        ultimately show ?thesis by (simp add: sv)
      next
        case False
        then show ?thesis
          using r'(2) by (simp add: m1 months_of_Cons p)
      qed
      ultimately show ?thesis by blast
    next
      case False
      define r1 where "r1 = kv_put svc outer1 r"
      have m1: "map_of r1 = (map_of r)(svc \<mapsto> outer1)"
        by (simp add: r1_def map_of_kv_put)
      have pre: "\<exists>c. map_of outer' m' = Some (Sub c)"
        if "(sv, m') \<in> set ps" "map_of r1 sv = Some outer'" for sv m' outer'
      proof (cases "sv = svc")
        case True
        then have "m' \<noteq> m" using that(1) notin by auto
        moreover have "outer' = outer1" using that(2) True by (simp add: m1)
        moreover have "(svc, m') \<in> set (p # ps)"
          using that(1) True by simp
        then obtain c' where "map_of outer m' = Some (Sub c')"
          using Cons.prems(2)[of svc m' outer] Some by blast
        ultimately show ?thesis
          by (simp add: outer1_def map_of_kv_delete)
      next
        case False
        then show ?thesis
          using Cons.prems(2)[of sv m' outer'] that by (simp add: p m1)
      qed
      have "\<exists>r'. cleanup_delete ps r1 = Inr r'
        \<and> (\<forall>sv. map_of r' sv = after_delete (months_of sv ps) (map_of r1 sv))"
    proof (rule Cons.IH[OF dist])
      fix sv m' outer'
      assume "(sv, m') \<in> set ps" "map_of r1 sv = Some outer'"
      then show "\<exists>c. map_of outer' m' = Some (Sub c)" by (rule pre)
    qed
    then obtain r' where r': "cleanup_delete ps r1 = Inr r'"
      "\<forall>sv. map_of r' sv = after_delete (months_of sv ps) (map_of r1 sv)"
      by blast
      have "cleanup_delete (p # ps) r = Inr r'"
        using Some del False r'(1) by (simp add: p tx_Bucket_def r1_def)
      moreover have "map_of r' sv = after_delete (months_of sv (p # ps)) (map_of r sv)" for sv
      proof (cases "sv = svc")
        case sv: True
        define ms where "ms = months_of svc ps"
        define o' where "o' = filter (\<lambda>(k, v). k \<notin> set ms) outer1"
        have e: "months_of svc (p # ps) = m # ms"
          by (simp add: p months_of_Cons ms_def)
        have o'': "filter (\<lambda>(k, v). k \<notin> set (m # ms)) outer = o'"
          using filter_filter_keys[of ms m outer] by (simp add: outer1_def o'_def)
        have imp: "o' = [] \<Longrightarrow> ms \<noteq> []"
          using False by (auto simp: o'_def)
        have lhs: "map_of r' svc = (if ms \<noteq> [] \<and> o' = [] then None else Some o')"
          using r'(2) by (simp add: m1 after_delete_def o'_def ms_def Let_def)
        have rhs: "after_delete (months_of svc (p # ps)) (map_of r svc)
            = (if o' = [] then None else Some o')"
          by (simp only: e Some after_delete_def option.case Let_def o'') simp
        show ?thesis
          using lhs rhs imp by (auto simp: sv)
      next
        case False
        then show ?thesis
          using r'(2) by (simp add: m1 months_of_Cons p)
      qed
      ultimately show ?thesis by blast
    qed
  qed
qed

lemma keys_sorted_distinct: "keys_sorted kvs \<Longrightarrow> distinct (map fst kvs)"
  by (simp add: keys_sorted_def strict_sorted_iff)

lemma bucket_names_iff: "m \<in> set (bucket_names b) \<longleftrightarrow> (\<exists>c. (m, Sub c) \<in> set b)"
  by (induction b rule: bucket_names.induct) auto

lemma bucket_names_distinct: "keys_sorted b \<Longrightarrow> distinct (bucket_names b)"
  using bucket_names_sorted[of b] by (simp add: strict_sorted_iff)

lemma marked_pairs_fst: "p \<in> set (marked_pairs cutoff r) \<Longrightarrow> fst p \<in> fst ` set r"
  by (induction r) (auto simp: marked_pairs_def)

lemma marked_pairs_Cons:
  "marked_pairs cutoff ((svc, outer) # r) =
     map (Pair svc) (filter (expired cutoff) (bucket_names outer)) @ marked_pairs cutoff r"
  by (simp add: marked_pairs_def)

lemma marked_pairs_distinct:
  assumes "wf_root r"
  shows "distinct (marked_pairs cutoff r)"
  using assms
proof (induction r)
  case Nil
  then show ?case by (simp add: marked_pairs_def)
next
  case (Cons x r)
  obtain svc outer where x: "x = (svc, outer)" by (cases x)
  have wf: "wf_root r" and o: "wf_bucket outer" and new: "svc \<notin> fst ` set r"
    using Cons.prems by (auto simp: wf_root_def keys_sorted_def x)
  have "distinct (map (Pair svc) (filter (expired cutoff) (bucket_names outer)))"
    using o by (simp add: distinct_map wf_bucket_def bucket_names_distinct inj_on_def)
  moreover have "set (map (Pair svc) (filter (expired cutoff) (bucket_names outer)))
      \<inter> set (marked_pairs cutoff r) = {}"
    using new marked_pairs_fst[of _ cutoff r] by fastforce
  ultimately show ?case
    using Cons.IH[OF wf] by (simp add: x marked_pairs_Cons)
qed

lemma marked_pairs_mem:
  "(sv, m) \<in> set (marked_pairs cutoff r)
   \<longleftrightarrow> (\<exists>outer. (sv, outer) \<in> set r \<and> m \<in> set (bucket_names outer) \<and> expired cutoff m)"
  by (induction r) (auto simp: marked_pairs_def)

lemma months_of_append: "months_of sv (xs @ ys) = months_of sv xs @ months_of sv ys"
  by (simp add: months_of_def)

lemma months_of_Pair: "months_of sv (map (Pair svc) ms) = (if svc = sv then ms else [])"
  by (induction ms) (auto simp: months_of_def)

lemma months_of_absent: "sv \<notin> fst ` set r \<Longrightarrow> months_of sv (marked_pairs cutoff r) = []"
  using marked_pairs_fst[of _ cutoff r] by (auto simp: months_of_def filter_empty_conv)

lemma months_of_marked:
  assumes "keys_sorted r" "map_of r sv = Some outer"
  shows "months_of sv (marked_pairs cutoff r) = filter (expired cutoff) (bucket_names outer)"
  using assms
proof (induction r)
  case Nil
  then show ?case by simp
next
  case (Cons x r)
  obtain svc ob where x: "x = (svc, ob)" by (cases x)
  have ks: "keys_sorted r" and new: "svc \<notin> fst ` set r"
    using Cons.prems(1) by (auto simp: keys_sorted_def x)
  show ?case
  proof (cases "svc = sv")
    case True
    then have "ob = outer" using Cons.prems(2) by (simp add: x)
    then show ?thesis
      using True new by (simp add: x marked_pairs_Cons months_of_append months_of_Pair months_of_absent)
  next
    case False
    then have "map_of r sv = Some outer" using Cons.prems(2) by (simp add: x)
    then show ?thesis
      using False Cons.IH[OF ks] by (simp add: x marked_pairs_Cons months_of_append months_of_Pair)
  qed
qed

lemma cleanup_delete_marked:
  assumes "wf_root r"
  shows "\<exists>r'. cleanup_delete (marked_pairs cutoff r) r = Inr r'
           \<and> (\<forall>sv outer. map_of r sv = Some outer \<longrightarrow>
                 map_of r' sv = after_delete (filter (expired cutoff) (bucket_names outer)) (Some outer))"
proof -
  have d: "distinct (map fst r)"
    using assms by (simp add: wf_root_def keys_sorted_distinct)
  have pre: "\<exists>c. map_of outer m = Some (Sub c)"
    if h: "(sv, m) \<in> set (marked_pairs cutoff r)" "map_of r sv = Some outer" for sv m outer
  proof -
    obtain ob where o: "(sv, ob) \<in> set r" "m \<in> set (bucket_names ob)"
      using h(1) marked_pairs_mem[of sv m cutoff r] by blast
    have "ob = outer"
      using d o(1) h(2) by (simp add: map_of_eq_Some_iff)
    then obtain c where c: "(m, Sub c) \<in> set outer"
      using o(2) by (auto simp: bucket_names_iff)
    have "wf_bucket outer"
      using assms o(1) \<open>ob = outer\<close> by (auto simp: wf_root_def list_all_iff)
    then have "distinct (map fst outer)"
      by (simp add: wf_bucket_def keys_sorted_distinct)
    then have "map_of outer m = Some (Sub c)"
      using c by (simp add: map_of_eq_Some_iff)
    then show ?thesis by blast
  qed
  have "\<exists>r'. cleanup_delete (marked_pairs cutoff r) r = Inr r'
           \<and> (\<forall>sv. map_of r' sv = after_delete (months_of sv (marked_pairs cutoff r)) (map_of r sv))"
  proof (rule cleanup_delete_lookup[OF marked_pairs_distinct[OF assms]])
    fix sv m outer
    assume "(sv, m) \<in> set (marked_pairs cutoff r)" "map_of r sv = Some outer"
    then show "\<exists>c. map_of outer m = Some (Sub c)" by (rule pre)
  qed
  then obtain r' where r': "cleanup_delete (marked_pairs cutoff r) r = Inr r'"
    "\<forall>sv. map_of r' sv = after_delete (months_of sv (marked_pairs cutoff r)) (map_of r sv)"
    by blast
  have "map_of r' sv = after_delete (filter (expired cutoff) (bucket_names outer)) (Some outer)"
    if "map_of r sv = Some outer" for sv outer
    using r'(2) months_of_marked[OF _ that, of cutoff] assms that by (simp add: wf_root_def)
  then show ?thesis using r'(1) by blast
qed

lemma time_AddDate_in_fixed:
  assumes "\<And>sec. fst (loc sec) = c"
  shows "time_AddDate_in loc t 0 0 d = t + d * nsPerDay"
proof -
  define a where "a = time_abs loc t"
  define u where "u = time_Date (time_Year a) (time_Month a) (time_Day a + d) 0 0 0 (a mod nsPerDay)"
  have a: "a = t + c * 1000000000"
    by (simp add: a_def time_abs_def assms)
  have "u = time_AddDate a 0 0 d"
    by (simp add: u_def time_AddDate_def)
  then have u: "u = a + d * nsPerDay"
    by (simp add: time_AddDate_days)
  obtain start fin where l: "loc (u div 1000000000) = (c, start, fin)"
    using assms[of "u div 1000000000"] by (cases "loc (u div 1000000000)") auto
  have "time_Date_in loc (time_Year a) (time_Month a) (time_Day a + d) 0 0 0 (a mod nsPerDay)
      = u - c * 1000000000"
    unfolding time_Date_in_def u_def[symmetric] Let_def l
    by (simp add: assms)
  then show ?thesis
    by (simp add: time_AddDate_in_def a_def[symmetric] u a)
qed

lemma time_AddDate_in_utc: "time_AddDate_in utcLoc t 0 0 d = t + d * nsPerDay"
  by (rule time_AddDate_in_fixed[where c = 0]) (simp add: utcLoc_def)

text \<open>
  C3. \<^verbatim>\<open>Cleanup\<close> on an open, well-formed store succeeds, and for every month partition
  of every service, with the cutoff \<^verbatim>\<open>time.Now().AddDate(0, 0, -retentionDays)\<close>, the
  instant \<open>retentionDays\<close> days before now on the wall clock of the local zone: the
  partition is gone afterwards exactly when its name reads as a month \<open>YYYY-MM\<close> and the
  first instant of the following calendar month (UTC) is strictly before the cutoff;
  otherwise (the boundary equal to the cutoff or later, or a name that is no month) it is
  still there with its records. In a zone of constant offset the cutoff is
  \<open>now - retentionDays * 24h\<close> (\<open>time_AddDate_in_fixed\<close>).
\<close>

theorem Cleanup_month_partitions:
  assumes "db s = Some r" and "wf_root r"
    and "tx_Bucket r svc = Some outer" and "Bucket outer month = Some inner"
  shows "\<exists>r'. Cleanup e s = (None, snd (time_Now e), s\<lparr>db := Some r'\<rparr>)
       \<and> (if expired (time_AddDate_in (location e) (fst (time_Now e)) 0 0 (- retentionDays s))
               month
          then (case tx_Bucket r' svc of None \<Rightarrow> True | Some outer' \<Rightarrow> Bucket outer' month = None)
          else (\<exists>outer'. tx_Bucket r' svc = Some outer' \<and> Bucket outer' month = Some inner))"
proof -
  define cutoff where
    "cutoff = time_AddDate_in (location e) (fst (time_Now e)) 0 0 (- retentionDays s)"
  define del where "del = filter (expired cutoff) (bucket_names outer)"
  define outer' where "outer' = filter (\<lambda>(k, v). k \<notin> set del) outer"
  obtain r' where r': "cleanup_delete (marked_pairs cutoff r) r = Inr r'"
    "\<forall>sv outer. map_of r sv = Some outer \<longrightarrow>
       map_of r' sv = after_delete (filter (expired cutoff) (bucket_names outer)) (Some outer)"
    using cleanup_delete_marked[OF assms(2), of cutoff] by blast
  have run: "Cleanup e s = (None, snd (time_Now e), s\<lparr>db := Some r'\<rparr>)"
    using assms(1) r'(1)
    by (simp add: Cleanup_def cleanup_collect_eq case_prod_unfold Let_def cutoff_def)
  have look: "tx_Bucket r' svc = (if del \<noteq> [] \<and> outer' = [] then None else Some outer')"
    using r'(2) assms(3) by (simp add: tx_Bucket_def after_delete_def del_def outer'_def Let_def)
  have mo: "map_of outer month = Some (Sub inner)"
    using assms(4) by (auto simp: Bucket_def split: option.splits node.splits)
  then have mem: "(month, Sub inner) \<in> set outer"
    by (rule map_of_SomeD)
  then have name: "month \<in> set (bucket_names outer)"
    by (auto simp: bucket_names_iff)
  have mo': "map_of outer' month = (if month \<notin> set del then map_of outer month else None)"
    unfolding outer'_def by (rule map_of_filter_keys)
  show ?thesis
  proof (cases "expired cutoff month")
    case True
    then have "month \<in> set del" using name by (simp add: del_def)
    then have "Bucket outer' month = None"
      using mo' by (simp add: Bucket_def)
    then show ?thesis
      using run look True by (auto simp: cutoff_def split: option.splits if_splits)
  next
    case False
    then have nd: "month \<notin> set del" by (simp add: del_def)
    then have "(month, Sub inner) \<in> set outer'"
      using mem by (simp add: outer'_def)
    then have "outer' \<noteq> []" by auto
    moreover have "Bucket outer' month = Some inner"
      using mo' nd mo by (simp add: Bucket_def)
    ultimately show ?thesis
      using run look False by (auto simp: cutoff_def)
  qed
qed

lemmas parse_eval =
  expired_def month_of_name_def following_month_def time_Date_def month_start_def
  isDigit_def digit_val_def less_eq_char_def

lemma cleanup_example_expired:
  "expired 1769904000000000000 ''2020-01''"
  "\<not> expired 1769904000000000000 ''2026-01''"
  "\<not> expired 1769904000000000000 ''2026-02''"
  "\<not> expired 1769904000000000000 ''not-a-month''"
  by (simp_all add: parse_eval)

lemma cleanup_example_wf: "wf_root [(''mix'', cleanup_months_example)]"
  using two_months_wf
  by (simp add: wf_root_def wf_bucket_def keys_sorted_def cleanup_months_example_def
      two_months_def)

lemma cleanup_example_Bucket:
  "Bucket cleanup_months_example ''2020-01'' = Some []"
  "Bucket cleanup_months_example ''2026-01'' = Some january"
  "Bucket cleanup_months_example ''not-a-month'' = Some []"
  by (simp_all add: cleanup_months_example_def Bucket_def)

text \<open>In New York, across the change to daylight saving time, the cutoff is an hour later
  than \<open>now - 60 * 24h\<close>, and past the end of January.\<close>

lemma ny_abs: "time_abs new_york 1775086200000000000 = 1775071800000000000"
  by (simp add: time_abs_def new_york_def)

lemma ny_fields:
  "time_Year 1775071800000000000 = 2026"
  "time_Month 1775071800000000000 = 4"
  "time_Day 1775071800000000000 = 1"
  by (simp_all add: time_eval)

lemma ny_date:
  "time_Date 2026 4 (- 59) 0 0 0 (1775071800000000000 mod nsPerDay) = 1769887800000000000"
  by (simp add: time_Date_def month_start_def nsPerDay_def)

lemma new_york_cutoff:
  "time_AddDate_in new_york 1775086200000000000 0 0 (- 60) = 1769905800000000000"
  by (simp add: time_AddDate_in_def ny_abs ny_fields ny_date time_Date_in_def)
    (simp add: new_york_def)

lemma new_york_expired:
  "expired 1769905800000000000 ''2026-01''"
  "\<not> expired 1769902200000000000 ''2026-01''"
  by (simp_all add: parse_eval)

theorem Cleanup_month_partitions_witness:
  "(\<exists>r'. Cleanup cleanup_env cleanup_store
            = (None, snd (time_Now cleanup_env), cleanup_store\<lparr>db := Some r'\<rparr>)
         \<and> (case tx_Bucket r' ''mix'' of None \<Rightarrow> True
             | Some outer' \<Rightarrow> Bucket outer' ''2020-01'' = None))
   \<and> (\<exists>r'. Cleanup cleanup_env cleanup_store
            = (None, snd (time_Now cleanup_env), cleanup_store\<lparr>db := Some r'\<rparr>)
         \<and> (\<exists>outer'. tx_Bucket r' ''mix'' = Some outer'
                \<and> Bucket outer' ''2026-01'' = Some january))
   \<and> (\<exists>r'. Cleanup cleanup_env cleanup_store
            = (None, snd (time_Now cleanup_env), cleanup_store\<lparr>db := Some r'\<rparr>)
         \<and> (\<exists>outer'. tx_Bucket r' ''mix'' = Some outer'
                \<and> Bucket outer' ''not-a-month'' = Some []))
   \<and> (\<exists>r'. Cleanup new_york_env cleanup_store
            = (None, snd (time_Now new_york_env), cleanup_store\<lparr>db := Some r'\<rparr>)
         \<and> (case tx_Bucket r' ''mix'' of None \<Rightarrow> True
             | Some outer' \<Rightarrow> Bucket outer' ''2026-01'' = None))
   \<and> (\<exists>r'. Cleanup utc_env cleanup_store
            = (None, snd (time_Now utc_env), cleanup_store\<lparr>db := Some r'\<rparr>)
         \<and> (\<exists>outer'. tx_Bucket r' ''mix'' = Some outer'
                \<and> Bucket outer' ''2026-01'' = Some january))"
proof -
  have d: "db cleanup_store = Some [(''mix'', cleanup_months_example)]"
    by (simp add: cleanup_store_def)
  have b: "tx_Bucket [(''mix'', cleanup_months_example)] ''mix'' = Some cleanup_months_example"
    by (simp add: tx_Bucket_def)
  have c: "time_AddDate_in (location cleanup_env) (fst (time_Now cleanup_env)) 0 0
             (- retentionDays cleanup_store) = 1769904000000000000"
    by (simp add: time_Now_def cleanup_env_def cleanup_store_def time_AddDate_in_utc
        nsPerDay_def)
  have n: "time_AddDate_in (location new_york_env) (fst (time_Now new_york_env)) 0 0
             (- retentionDays cleanup_store) = 1769905800000000000"
    by (simp add: time_Now_def new_york_env_def cleanup_store_def new_york_cutoff)
  have u: "time_AddDate_in (location utc_env) (fst (time_Now utc_env)) 0 0
             (- retentionDays cleanup_store) = 1769902200000000000"
    by (simp add: time_Now_def utc_env_def cleanup_store_def time_AddDate_in_utc nsPerDay_def)
  show ?thesis
    using Cleanup_month_partitions[OF d cleanup_example_wf b cleanup_example_Bucket(1), of cleanup_env]
      Cleanup_month_partitions[OF d cleanup_example_wf b cleanup_example_Bucket(2), of cleanup_env]
      Cleanup_month_partitions[OF d cleanup_example_wf b cleanup_example_Bucket(3), of cleanup_env]
      Cleanup_month_partitions[OF d cleanup_example_wf b cleanup_example_Bucket(2), of new_york_env]
      Cleanup_month_partitions[OF d cleanup_example_wf b cleanup_example_Bucket(2), of utc_env]
    unfolding c n u by (simp add: cleanup_example_expired new_york_expired)
qed

lemma Cleanup_example:
  "Cleanup cleanup_env cleanup_store =
     (None, cleanup_env\<lparr>ticks := 1\<rparr>,
      cleanup_store\<lparr>db := Some [(''mix'',
        [(''2026-01'', Sub january), (''2026-02'', Sub february), (''not-a-month'', Sub [])])]\<rparr>)"
proof -
  have c: "time_AddDate_in utcLoc 1775088000000000000 0 0 (- 60) = 1769904000000000000"
    by (simp add: time_AddDate_in_utc nsPerDay_def)
  have m: "marked_pairs 1769904000000000000 [(''mix'', cleanup_months_example)]
      = [(''mix'', ''2020-01'')]"
    by (simp add: marked_pairs_def cleanup_months_example_def cleanup_example_expired)
  show ?thesis
    by (simp add: Cleanup_def time_Now_def cleanup_env_def cleanup_store_def c
        cleanup_collect_eq m)
       (simp add: tx_Bucket_def DeleteBucket_def kv_delete_def cleanup_months_example_def)
qed

text \<open>The same store cleaned in New York on 2026-04-01T23:30:00Z loses January as well.\<close>

lemma Cleanup_new_york:
  "Cleanup new_york_env cleanup_store =
     (None, new_york_env\<lparr>ticks := 1\<rparr>,
      cleanup_store\<lparr>db := Some [(''mix'',
        [(''2026-02'', Sub february), (''not-a-month'', Sub [])])]\<rparr>)"
proof -
  have e: "expired 1769905800000000000 ''2020-01''"
    "\<not> expired 1769905800000000000 ''2026-02''"
    "\<not> expired 1769905800000000000 ''not-a-month''"
    by (simp_all add: parse_eval)
  have m: "marked_pairs 1769905800000000000 [(''mix'', cleanup_months_example)]
      = [(''mix'', ''2020-01''), (''mix'', ''2026-01'')]"
    by (simp add: marked_pairs_def cleanup_months_example_def e new_york_expired)
  show ?thesis
    by (simp add: Cleanup_def time_Now_def new_york_env_def cleanup_store_def new_york_cutoff
        cleanup_collect_eq m)
       (simp add: tx_Bucket_def DeleteBucket_def kv_delete_def cleanup_months_example_def)
qed

subsection \<open>Write path\<close>

lemma set_kv_put: "set (kv_put k v kvs) \<subseteq> insert (k, v) (set kvs)"
  by (induction kvs) (auto split: if_splits)

lemma length_kv_put_new: "k \<notin> fst ` set kvs \<Longrightarrow> length (kv_put k v kvs) = Suc (length kvs)"
  by (induction kvs) auto

lemma keys_sorted_kv_put: "keys_sorted kvs \<Longrightarrow> keys_sorted (kv_put k v kvs)"
proof (induction kvs)
  case Nil
  then show ?case by (simp add: keys_sorted_def)
next
  case (Cons x kvs)
  obtain k' v' where x: "x = (k', v')" by (cases x)
  have "\<forall>y \<in> fst ` set (kv_put k v kvs). k' < y" if "k' < k"
    using Cons.prems set_kv_put[of k v kvs] that by (fastforce simp: keys_sorted_def x)
  then show ?case
    using Cons by (auto simp: keys_sorted_def x)
qed

lemma record_count_kv_put:
  "keys_sorted outer \<Longrightarrow>
   record_count (kv_put m (Sub c') outer)
     + (case map_of outer m of Some (Sub c) \<Rightarrow> length c | _ \<Rightarrow> 0)
   = record_count outer + length c'"
proof (induction outer)
  case Nil
  then show ?case by (simp add: record_count_def)
next
  case (Cons x outer)
  obtain k v where x: "x = (k, v)" by (cases x)
  have ks: "keys_sorted outer" and gt: "\<forall>y \<in> fst ` set outer. k < y"
    using Cons.prems by (auto simp: keys_sorted_def x)
  show ?case
  proof (cases "m < k")
    case True
    then have "m \<notin> fst ` set outer" using gt by auto
    then have "map_of outer m = None" by (simp add: map_of_eq_None_iff)
    moreover have "m \<noteq> k" using True by auto
    ultimately show ?thesis
      using True by (simp add: x record_count_def)
  next
    case False
    show ?thesis
    proof (cases "m = k")
      case True
      then show ?thesis
        by (simp add: x record_count_def)
    next
      case ne: False
      then show ?thesis
        using False Cons.IH[OF ks] by (simp add: x record_count_def)
    qed
  qed
qed

lemma rand_parts_mem:
  "x \<in> set (rand_parts outer) \<longleftrightarrow> (\<exists>m c. (m, Sub c) \<in> set outer \<and> x \<in> set (key_rands c))"
  by (induction outer) (auto simp: rand_parts_def split: node.splits)

lemma key_rands_kv_put:
  "set (key_rands (kv_put k v c)) \<subseteq> insert (take 10 (drop 6 k)) (set (key_rands c))"
  using set_kv_put[of k v c] by (auto simp: key_rands_def)

lemma key_rands_fresh:
  "take 10 (drop 6 k) \<notin> set (key_rands c) \<Longrightarrow> k \<notin> fst ` set c"
  by (auto simp: key_rands_def)

lemma CreateBucket_cases:
  assumes "CreateBucketIfNotExists outer m = Inr (outer1, inner)"
  shows "(map_of outer m = Some (Sub inner) \<and> outer1 = outer)
       \<or> (map_of outer m = None \<and> outer1 = kv_put m (Sub []) outer \<and> inner = [])"
  using assms
  by (auto simp: CreateBucketIfNotExists_def split: if_splits option.splits node.splits)

lemma put_record:
  assumes ks: "keys_sorted outer"
    and cr: "CreateBucketIfNotExists outer m = Inr (outer1, inner)"
    and fresh: "take 10 (drop 6 key) \<notin> set (rand_parts outer)"
  shows "record_count (kv_put m (Sub (kv_put key (Val v) inner)) outer1) = Suc (record_count outer)"
    and "keys_sorted (kv_put m (Sub (kv_put key (Val v) inner)) outer1)"
    and "set (rand_parts (kv_put m (Sub (kv_put key (Val v) inner)) outer1))
           \<subseteq> insert (take 10 (drop 6 key)) (set (rand_parts outer))"
proof -
  define inner' where "inner' = kv_put key (Val v) inner"
  define outer2 where "outer2 = kv_put m (Sub inner') outer1"
  have cs: "(map_of outer m = Some (Sub inner) \<and> outer1 = outer)
       \<or> (map_of outer m = None \<and> outer1 = kv_put m (Sub []) outer \<and> inner = [])"
    by (rule CreateBucket_cases[OF cr])
  have sub: "set (key_rands inner) \<subseteq> set (rand_parts outer)"
  proof (cases "map_of outer m")
    case None
    then show ?thesis using cs by (simp add: key_rands_def)
  next
    case (Some a)
    then have "(m, Sub inner) \<in> set outer"
      using cs by (auto dest: map_of_SomeD)
    then show ?thesis
      unfolding rand_parts_mem subset_iff by blast
  qed
  have ks1: "keys_sorted outer1"
    using cs ks by (auto simp: keys_sorted_kv_put)
  have mem: "set outer1 \<subseteq> insert (m, Sub []) (set outer)"
    using cs set_kv_put[of m "Sub []" outer] by auto
  have cnt: "record_count outer2 + length inner = record_count outer + length inner'"
  proof (cases "map_of outer m")
    case None
    then have new: "outer1 = kv_put m (Sub []) outer" "inner = []"
      using cs by auto
    have a: "record_count outer1 = record_count outer"
      using record_count_kv_put[OF ks, of m "[]"] None new by simp
    have "map_of outer1 m = Some (Sub [])"
      by (simp add: new(1) map_of_kv_put)
    then have "record_count outer2 = record_count outer1 + length inner'"
      using record_count_kv_put[OF ks1, of m inner'] by (simp add: outer2_def)
    then show ?thesis
      using a new(2) by simp
  next
    case (Some a)
    then have old: "map_of outer m = Some (Sub inner)" "outer1 = outer"
      using cs by auto
    show ?thesis
      using record_count_kv_put[OF ks, of m inner'] old by (simp add: outer2_def)
  qed
  have "key \<notin> fst ` set inner"
    using fresh sub key_rands_fresh[of key inner] by blast
  then have "length inner' = Suc (length inner)"
    by (simp add: inner'_def length_kv_put_new)
  then show "record_count (kv_put m (Sub (kv_put key (Val v) inner)) outer1) = Suc (record_count outer)"
    using cnt by (simp add: outer2_def inner'_def)
  show "keys_sorted (kv_put m (Sub (kv_put key (Val v) inner)) outer1)"
    using ks1 by (rule keys_sorted_kv_put)
  have o2: "set outer2 \<subseteq> insert (m, Sub inner') (insert (m, Sub []) (set outer))"
    using set_kv_put[of m "Sub inner'" outer1] mem by (auto simp: outer2_def)
  have kr: "set (key_rands inner') \<subseteq> insert (take 10 (drop 6 key)) (set (rand_parts outer))"
    using key_rands_kv_put[of key "Val v" inner] sub by (auto simp: inner'_def)
  have "set (rand_parts outer2) \<subseteq> insert (take 10 (drop 6 key)) (set (rand_parts outer))"
  proof
    fix x
    assume "x \<in> set (rand_parts outer2)"
    then obtain m' c where mc: "(m', Sub c) \<in> set outer2" "x \<in> set (key_rands c)"
      unfolding rand_parts_mem by blast
    from mc(1) o2 consider "c = inner'" | "c = []" | "(m', Sub c) \<in> set outer"
      by auto
    then show "x \<in> insert (take 10 (drop 6 key)) (set (rand_parts outer))"
    proof cases
      case 1
      then show ?thesis using mc(2) kr by auto
    next
      case 2
      then show ?thesis using mc(2) by (simp add: key_rands_def)
    next
      case 3
      then have "x \<in> set (rand_parts outer)"
        unfolding rand_parts_mem using mc(2) by blast
      then show ?thesis by simp
    qed
  qed
  then show "set (rand_parts (kv_put m (Sub (kv_put key (Val v) inner)) outer1))
           \<subseteq> insert (take 10 (drop 6 key)) (set (rand_parts outer))"
    by (simp add: outer2_def inner'_def)
qed

lemma makeKey_rand:
  assumes "makeKey t spanID src = Inr (key, src')"
  shows "take 10 (drop 6 key) = take 10 src" and "src' = drop 10 src"
  using makeKey_Inr[OF assms] by simp_all

lemma spanStartTime_entropy: "spanStartTime span e = (t, e1) \<Longrightarrow> entropy e1 = entropy e"
  by (auto simp: spanStartTime_def time_Now_def split: if_splits)

lemma write_spans_Cons_Inr:
  assumes "write_spans cd rs sls (span # spans) outer e = (Inr outer', e')"
  obtains t e1 outer1 inner key src v where
    "spanStartTime span e = (t, e1)"
    "CreateBucketIfNotExists outer (time_Format t) = Inr (outer1, inner)"
    "makeKey t (SpanId span) (entropy e1) = Inr (key, src)"
    "write_spans cd rs sls spans
       (kv_put (time_Format t) (Sub (kv_put key (Val v) inner)) outer1) (e1\<lparr>entropy := src\<rparr>)
     = (Inr outer', e')"
proof -
  obtain t e1 where st: "spanStartTime span e = (t, e1)"
    by (cases "spanStartTime span e")
  obtain outer1 inner where cr: "CreateBucketIfNotExists outer (time_Format t) = Inr (outer1, inner)"
    using assms st by (auto split: sum.splits)
  obtain key src where mk: "makeKey t (SpanId span) (entropy e1) = Inr (key, src)"
    using assms st cr by (auto split: sum.splits)
  obtain data where ma: "proto_Marshal cd
              \<lparr>Resource = Resource rs,
               ScopeSpans = [\<lparr>Scope = Scope sls, Spans = [span],
                               ScopeSchemaUrl = ScopeSchemaUrl sls\<rparr>],
               SchemaUrl = SchemaUrl rs\<rparr> = Inr data"
    using assms st cr mk by (auto split: sum.splits)
  obtain compressed where co: "compress cd data = Inr compressed"
    using assms st cr mk ma by (auto split: sum.splits)
  obtain inner' where pu: "Put inner key compressed = Inr inner'"
    using assms st cr mk ma co by (auto split: sum.splits)
  have "inner' = kv_put key (Val compressed) inner"
    using pu by (auto simp: Put_def split: if_splits option.splits node.splits)
  then have "write_spans cd rs sls spans
       (kv_put (time_Format t) (Sub (kv_put key (Val compressed) inner)) outer1)
       (e1\<lparr>entropy := src\<rparr>) = (Inr outer', e')"
    using assms st cr mk ma co pu by simp
  then show ?thesis
    using that st cr mk by blast
qed

lemma write_spans_count:
  assumes "write_spans cd rs sls spans outer e = (Inr outer', e')"
    and "keys_sorted outer"
    and "distinct (chunks (length spans) (entropy e))"
    and "set (chunks (length spans) (entropy e)) \<inter> set (rand_parts outer) = {}"
  shows "record_count outer' = record_count outer + length spans
       \<and> keys_sorted outer'
       \<and> entropy e' = drop (10 * length spans) (entropy e)
       \<and> set (rand_parts outer')
            \<subseteq> set (rand_parts outer) \<union> set (chunks (length spans) (entropy e))"
  using assms
proof (induction spans arbitrary: outer e)
  case Nil
  then show ?case by simp
next
  case (Cons span spans)
  obtain t e1 outer1 inner key src v where
    st: "spanStartTime span e = (t, e1)"
    and cr: "CreateBucketIfNotExists outer (time_Format t) = Inr (outer1, inner)"
    and mk: "makeKey t (SpanId span) (entropy e1) = Inr (key, src)"
    and rec: "write_spans cd rs sls spans
       (kv_put (time_Format t) (Sub (kv_put key (Val v) inner)) outer1) (e1\<lparr>entropy := src\<rparr>)
     = (Inr outer', e')"
    using write_spans_Cons_Inr[OF Cons.prems(1)] by metis
  define outer2 where "outer2 = kv_put (time_Format t) (Sub (kv_put key (Val v) inner)) outer1"
  define ch where "ch = take 10 (entropy e)"
  have en: "entropy e1 = entropy e"
    using st by (rule spanStartTime_entropy)
  have kr: "take 10 (drop 6 key) = ch" and src: "src = drop 10 (entropy e)"
    using makeKey_rand[OF mk] by (simp_all add: en ch_def)
  have d: "distinct (chunks (length spans) src)" and ch1: "ch \<notin> set (chunks (length spans) src)"
    and ch2: "ch \<notin> set (rand_parts outer)"
    and dj: "set (chunks (length spans) src) \<inter> set (rand_parts outer) = {}"
    using Cons.prems(3,4) by (auto simp: src ch_def)
  have fresh: "take 10 (drop 6 key) \<notin> set (rand_parts outer)"
    using ch2 kr by simp
  note pr = put_record[OF Cons.prems(2) cr fresh, of v, folded outer2_def, unfolded kr]
  have dj2: "set (chunks (length spans) (entropy (e1\<lparr>entropy := src\<rparr>))) \<inter> set (rand_parts outer2) = {}"
    using pr(3) dj ch1 by auto
  have d2: "distinct (chunks (length spans) (entropy (e1\<lparr>entropy := src\<rparr>)))"
    using d by simp
  note IH = Cons.IH[OF rec[folded outer2_def] pr(2) d2 dj2]
  have "drop (10 * length spans) src = drop (10 * length (span # spans)) (entropy e)"
    by (simp add: src add.commute)
  moreover have "set (rand_parts outer2) \<union> set (chunks (length spans) src)
      \<subseteq> set (rand_parts outer) \<union> set (chunks (length (span # spans)) (entropy e))"
    using pr(3) by (auto simp: src ch_def)
  ultimately show ?case
    using IH pr(1) by auto
qed

lemma t_format_january: "time_Format 1768000000000000000 = ''2026-01''"
  by (simp add: time_eval char_eval)

lemma two_span_write:
  "WriteResourceSpans plain_codec two_span_batch example_env empty_store
   = (None, example_env\<lparr>entropy := []\<rparr>, two_span_store)"
  by (simp add: WriteResourceSpans_def write_tx_def serviceName_def
      tx_CreateBucketIfNotExists_def CreateBucketIfNotExists_def Put_def
      MaxKeySize_def MaxValueSize_def spanStartTime_def t_format t_format_january
      key_eval codec_eval example_value_def
      example_env_def example_span_def example_rs_def empty_store_def two_span_batch_def
      two_span_store_def)

lemma same_key_write:
  "WriteResourceSpans plain_codec same_key_batch repeating_env empty_store
   = (None, repeating_env\<lparr>entropy := []\<rparr>, same_key_store)"
  by (simp add: WriteResourceSpans_def write_tx_def serviceName_def
      tx_CreateBucketIfNotExists_def CreateBucketIfNotExists_def Put_def
      MaxKeySize_def MaxValueSize_def spanStartTime_def t_format
      key_eval codec_eval example_value_def
      repeating_env_def example_span_def example_rs_def empty_store_def same_key_batch_def
      same_key_store_def)

lemma chunks_add: "chunks (a + b) src = chunks a src @ chunks b (drop (10 * a) src)"
  by (induction a arbitrary: src) (simp_all add: add.commute)

lemma write_scopes_count:
  assumes "write_scopes cd rs scopes outer e = (Inr outer', e')"
    and "keys_sorted outer"
    and "distinct (chunks (length (concat (map Spans scopes))) (entropy e))"
    and "set (chunks (length (concat (map Spans scopes))) (entropy e)) \<inter> set (rand_parts outer) = {}"
  shows "record_count outer' = record_count outer + length (concat (map Spans scopes))
       \<and> keys_sorted outer'"
  using assms
proof (induction scopes arbitrary: outer e)
  case Nil
  then show ?case by simp
next
  case (Cons sls scopes)
  define a where "a = length (Spans sls)"
  define b where "b = length (concat (map Spans scopes))"
  have n: "length (concat (map Spans (sls # scopes))) = a + b"
    by (simp add: a_def b_def)
  obtain outer1 e1 where ws: "write_spans cd rs sls (Spans sls) outer e = (Inr outer1, e1)"
    and rec: "write_scopes cd rs scopes outer1 e1 = (Inr outer', e')"
    using Cons.prems(1) by (auto split: prod.splits sum.splits)
  have d: "distinct (chunks a (entropy e))" "distinct (chunks b (drop (10 * a) (entropy e)))"
    and x: "set (chunks a (entropy e)) \<inter> set (chunks b (drop (10 * a) (entropy e))) = {}"
    and dj: "set (chunks a (entropy e)) \<inter> set (rand_parts outer) = {}"
      "set (chunks b (drop (10 * a) (entropy e))) \<inter> set (rand_parts outer) = {}"
    using Cons.prems(3,4) unfolding n chunks_add by auto
  note s1 = write_spans_count[OF ws Cons.prems(2) d(1)[unfolded a_def] dj(1)[unfolded a_def],
      folded a_def]
  have e1: "entropy e1 = drop (10 * a) (entropy e)" using s1 by simp
  have dj1: "set (chunks b (entropy e1)) \<inter> set (rand_parts outer1) = {}"
    using s1 x dj(2) unfolding e1 by blast
  have "record_count outer' = record_count outer1 + b \<and> keys_sorted outer'"
    using Cons.IH[OF rec, folded b_def] s1 d(2) dj1 by (simp add: e1)
  then show ?case
    using s1 unfolding n by simp
qed

text \<open>
  Claim C5. A successful \<open>WriteResourceSpans\<close> of a batch with \<open>N\<close> spans, summed over
  all scopes, adds exactly \<open>N\<close> records to the service partition named by \<open>serviceName\<close>,
  across its month partitions, provided that the \<open>N\<close> 10-byte random parts the keys draw
  from the entropy source are pairwise distinct and are the random part of no key already in
  that service partition. Without the proviso \<open>Put\<close> overwrites: in the example that
  follows the theorem and its instance, two spans with the same span identifier and the
  same millisecond get the same random part, and one record is left.
\<close>
theorem WriteResourceSpans_adds_records:
  assumes "db s = Some r" and "wf_root r"
    and "WriteResourceSpans cd rs e s = (None, e', s')"
    and "distinct (chunks (length (concat (map Spans (ScopeSpans rs)))) (entropy e))"
    and "set (chunks (length (concat (map Spans (ScopeSpans rs)))) (entropy e))
           \<inter> set (rand_parts (service_bucket r (serviceName rs))) = {}"
  shows "\<exists>r'. db s' = Some r'
           \<and> service_count r' (serviceName rs)
               = service_count r (serviceName rs) + length (concat (map Spans (ScopeSpans rs)))"
proof -
  define svc where "svc = serviceName rs"
  define outer where "outer = service_bucket r svc"
  obtain r' where tx: "write_tx cd rs svc r e = (Inr r', e')" and s': "s' = s\<lparr>db := Some r'\<rparr>"
    using assms(1,3)
    by (auto simp: WriteResourceSpans_def svc_def split: prod.splits sum.splits)
  obtain r1 where cr: "tx_CreateBucketIfNotExists r svc = Inr (r1, outer)"
    using tx
    by (auto simp: write_tx_def tx_CreateBucketIfNotExists_def outer_def service_bucket_def
        tx_Bucket_def split: if_splits option.splits sum.splits)
  obtain outer' where ws: "write_scopes cd rs (ScopeSpans rs) outer e = (Inr outer', e')"
    and r': "r' = kv_put svc outer' r1"
    using tx cr by (auto simp: write_tx_def split: prod.splits sum.splits)
  have ks: "keys_sorted outer"
  proof (cases "map_of r svc")
    case None
    then show ?thesis
      by (simp add: outer_def service_bucket_def tx_Bucket_def keys_sorted_def)
  next
    case (Some c)
    then have "(svc, c) \<in> set r" by (rule map_of_SomeD)
    then have "wf_bucket c"
      using assms(2) by (auto simp: wf_root_def list_all_iff)
    then show ?thesis
      using Some by (simp add: outer_def service_bucket_def tx_Bucket_def wf_bucket_def)
  qed
  have "record_count outer' = record_count outer + length (concat (map Spans (ScopeSpans rs)))"
    using write_scopes_count[OF ws ks] assms(4,5) by (simp add: outer_def svc_def)
  moreover have "service_bucket r' svc = outer'"
    by (simp add: r' service_bucket_def tx_Bucket_def map_of_kv_put)
  ultimately show ?thesis
    by (simp add: s' service_count_def outer_def svc_def)
qed

theorem WriteResourceSpans_adds_records_witness:
  "fst (WriteResourceSpans plain_codec two_span_batch example_env empty_store) = None
   \<and> distinct (chunks 2 (entropy example_env))
   \<and> (\<exists>r'. db (snd (snd (WriteResourceSpans plain_codec two_span_batch example_env empty_store)))
              = Some r'
            \<and> service_count r' ''svc'' = 2)"
  using WriteResourceSpans_adds_records[of empty_store "[]" plain_codec two_span_batch example_env
      "example_env\<lparr>entropy := []\<rparr>" two_span_store]
  by (simp add: two_span_write)
    (simp add: empty_store_def wf_root_def keys_sorted_def two_span_batch_def example_rs_def
      serviceName_def example_env_def service_count_def service_bucket_def tx_Bucket_def
      record_count_def rand_parts_def numeral_2_eq_2)

theorem WriteResourceSpans_key_collision:
  "WriteResourceSpans plain_codec same_key_batch repeating_env empty_store
     = (None, repeating_env\<lparr>entropy := []\<rparr>, same_key_store)
   \<and> length (concat (map Spans (ScopeSpans same_key_batch))) = 2
   \<and> serviceName same_key_batch = ''svc''
   \<and> service_count (the (db empty_store)) ''svc'' = 0
   \<and> service_count (the (db same_key_store)) ''svc'' = 1"
  by (simp add: same_key_write)
    (simp add: same_key_batch_def example_rs_def serviceName_def empty_store_def
      same_key_store_def service_count_def service_bucket_def tx_Bucket_def record_count_def)

text \<open>
  A span without a start time is keyed under the time of writing. Written at 2026-02-19
  together with a span that started 100 seconds before, it has the greater key of the two
  in their month partition, and the start time zero.
\<close>

lemma zero_start_write:
  "WriteResourceSpans plain_codec zero_start_batch example_env empty_store
     = (None, example_env\<lparr>ticks := 1, entropy := []\<rparr>, zero_start_store)"
  by (simp add: WriteResourceSpans_def write_tx_def serviceName_def
      tx_CreateBucketIfNotExists_def CreateBucketIfNotExists_def Put_def
      MaxKeySize_def MaxValueSize_def spanStartTime_def time_Now_def t_format
      key_eval codec_eval char_eval example_value_def
      example_env_def example_span_def example_rs_def empty_store_def zero_start_batch_def
      zero_start_store_def zero_start_month_def)
    (simp add: time_eval char_eval)

lemma from_be_zero_start:
  "from_be (be64 0) = 0" "from_be (be64 1771502300000000000) = 1771502300000000000"
  by (simp_all add: from_be_def key_eval char_eval)

theorem record_key_order_zero_start:
  "WriteResourceSpans plain_codec zero_start_batch example_env empty_store
     = (None, example_env\<lparr>ticks := 1, entropy := []\<rparr>, zero_start_store)
   \<and> Bucket (service_bucket (the (db zero_start_store)) ''svc'') ''2026-02''
     = Some zero_start_month
   \<and> map fst (records_of plain_codec zero_start_month)
     = [time_bytes 1771502300000 @ ''abcdefghij'' @ ''span0002'',
        time_bytes 1771502400000 @ ''0123456789'' @ ''span0001'']
   \<and> map (start_ms \<circ> snd) (records_of plain_codec zero_start_month) = [1771502300000, 0]
   \<and> time_bytes 1771502300000 @ ''abcdefghij'' @ ''span0002''
     < time_bytes 1771502400000 @ ''0123456789'' @ ''span0001''"
  by (simp add: zero_start_write)
    (simp add: zero_start_store_def service_bucket_def tx_Bucket_def Bucket_def
      zero_start_month_def records_of_Cons decode_example from_be_zero_start start_ms_def
      time_bytes_def byte_def drop_bit_eq_div char_eval)

subsection \<open>Window scan\<close>

text \<open>
  On a store with ascending keys the cursor loop of \<open>scanWindow\<close> returns the records between
  the bound keys; for times the key's timestamp field can hold, a key lies between the bound
  keys exactly when its millisecond lies between those of the bounds, and the month of such a
  time is one of the months scanned.
\<close>

lemma scan_cursor_eq:
  "scan_cursor cd traceID month hiKey kvs result =
     result @ map (\<lambda>(k, sp). buildSummary cd sp month)
       (filter (\<lambda>(k, sp). hex_EncodeToString (TraceId sp) = traceID)
          (records_of cd (takeWhile (\<lambda>(k, v). k \<le> hiKey) kvs)))"
proof (induction kvs arbitrary: result)
  case Nil
  then show ?case by simp
next
  case (Cons kv kvs)
  obtain k v where kv: "kv = (k, v)" by (cases kv)
  show ?case
    by (cases "decodeSpan cd (val_bytes v)") (simp_all add: kv Cons.IH records_of_Cons)
qed

lemma seek_walk_filter:
  "keys_sorted inner \<Longrightarrow>
   takeWhile (\<lambda>(k, v). k \<le> hiKey) (Seek inner loKey)
     = filter (\<lambda>(k, v). loKey \<le> k \<and> k \<le> hiKey) inner"
proof (induction inner)
  case Nil
  then show ?case by (simp add: Seek_def)
next
  case (Cons kv inner)
  obtain k v where kv: "kv = (k, v)" by (cases kv)
  have sorted: "keys_sorted inner" and above: "\<forall>x\<in>set inner. k < fst x"
    using Cons.prems by (auto simp: keys_sorted_def kv)
  show ?case
  proof (cases "k < loKey")
    case True
    then have "\<not> loKey \<le> k" by simp
    then show ?thesis
      using True Cons.IH[OF sorted] by (simp add: Seek_def kv)
  next
    case low: False
    then have all: "\<forall>x\<in>set inner. \<not> fst x < loKey"
      using above by fastforce
    have dw: "dropWhile (\<lambda>(k, v). k < loKey) inner = inner"
      using all by (induction inner) auto
    show ?thesis
    proof (cases "k \<le> hiKey")
      case True
      then show ?thesis
        using Cons.IH[OF sorted] low by (simp add: Seek_def kv dw)
    next
      case False
      then have "\<forall>x\<in>set inner. \<not> fst x \<le> hiKey"
        using above by fastforce
      then have "filter (\<lambda>(k, v). loKey \<le> k \<and> k \<le> hiKey) inner = []"
        by (auto simp: filter_empty_conv)
      then show ?thesis
        using False low by (simp add: Seek_def kv)
    qed
  qed
qed

lemma records_of_filter:
  "records_of cd (filter (\<lambda>(k, v). P k) kvs) = filter (\<lambda>(k, sp). P k) (records_of cd kvs)"
proof (induction kvs)
  case Nil
  then show ?case by simp
next
  case (Cons kv kvs)
  obtain k v where kv: "kv = (k, v)" by (cases kv)
  show ?case
    by (cases "decodeSpan cd (val_bytes v)") (simp_all add: kv Cons.IH records_of_Cons)
qed

lemma scan_cursor_window:
  assumes "keys_sorted inner"
  shows "scan_cursor cd traceID month hiKey (Seek inner loKey) result =
     result @ map (\<lambda>(k, sp). buildSummary cd sp month)
                (window_records cd traceID loKey hiKey inner)"
proof -
  have "filter (\<lambda>(k, sp). hex_EncodeToString (TraceId sp) = traceID)
          (filter (\<lambda>(k, sp). loKey \<le> k \<and> k \<le> hiKey) (records_of cd inner))
        = window_records cd traceID loKey hiKey inner"
    unfolding window_records_def filter_filter
    by (rule filter_cong) auto
  then show ?thesis
    unfolding scan_cursor_eq seek_walk_filter[OF assms]
      records_of_filter[where P = "\<lambda>k. loKey \<le> k \<and> k \<le> hiKey"]
    by simp
qed

lemma scan_months_eq:
  assumes "wf_bucket outer"
  shows "scan_months cd traceID loKey hiKey outer months result =
     result @ map (\<lambda>(m, k, sp). buildSummary cd sp m)
       (concat (map (\<lambda>m. case Bucket outer m of
                            None \<Rightarrow> []
                          | Some inner \<Rightarrow>
                              map (Pair m) (window_records cd traceID loKey hiKey inner))
                  months))"
proof (induction months arbitrary: result)
  case Nil
  then show ?case by simp
next
  case (Cons m months)
  show ?case
  proof (cases "Bucket outer m")
    case None
    then show ?thesis by (simp add: Cons.IH)
  next
    case (Some inner)
    have "keys_sorted inner"
      using Bucket_wf[OF assms Some] .
    then show ?thesis
      by (simp add: Some Cons.IH scan_cursor_window comp_def)
  qed
qed

lemma scan_root_eq:
  assumes "list_all (\<lambda>(k, outer). wf_bucket outer) r"
  shows "scan_root cd traceID loKey hiKey months r result =
     result @ map (\<lambda>(m, k, sp). buildSummary cd sp m)
       (concat (map (\<lambda>(svc, outer).
          concat (map (\<lambda>m. case Bucket outer m of
                              None \<Rightarrow> []
                            | Some inner \<Rightarrow>
                                map (Pair m) (window_records cd traceID loKey hiKey inner))
                    months)) r))"
  using assms
proof (induction r arbitrary: result)
  case Nil
  then show ?case by simp
next
  case (Cons b r)
  obtain svc outer where b: "b = (svc, outer)" by (cases b)
  have wf: "wf_bucket outer" and rest: "list_all (\<lambda>(k, outer). wf_bucket outer) r"
    using Cons.prems by (simp_all add: b)
  show ?case
    by (simp add: b Cons.IH[OF rest] scan_months_eq[OF wf])
qed

lemma scanWindow_eq:
  assumes "db s = Some r" "wf_root r"
  shows "scanWindow cd s traceID from_t to_t =
     (map (\<lambda>(m, k, sp). buildSummary cd sp m) (window_scan cd r traceID from_t to_t), None)"
proof -
  have "list_all (\<lambda>(k, outer). wf_bucket outer) r"
    using assms(2) by (simp add: wf_root_def)
  then show ?thesis
    by (simp add: scanWindow_def assms(1) Let_def scan_root_eq window_scan_def)
qed

lemma not_less_zeros: "length xs = n \<Longrightarrow> \<not> xs < replicate n (CHR 0x00)"
proof (induction xs arbitrary: n)
  case Nil
  then show ?case by simp
next
  case (Cons c xs)
  then obtain m where n: "n = Suc m" and m: "length xs = m" by (cases n) auto
  have "\<not> c < CHR 0x00" by (simp add: less_char_def)
  then show ?case
    using Cons.IH[OF m] by (simp add: n)
qed

lemma not_above_ffs: "length xs = n \<Longrightarrow> \<not> replicate n (CHR 0xFF) < xs"
proof (induction xs arbitrary: n)
  case Nil
  then show ?case by simp
next
  case (Cons c xs)
  then obtain m where n: "n = Suc m" and m: "length xs = m" by (cases n) auto
  have "\<not> (255::nat) < of_char c"
    using nat_of_char_less_256[of c] by linarith
  then have "\<not> CHR 0xFF < c"
    by (simp add: less_char_def)
  then show ?case
    using Cons.IH[OF m] by (simp add: n)
qed

lemma ulid_Timestamp_le:
  assumes "0 \<le> t1" "t1 < 281474976710656000000" "0 \<le> t2" "t2 < 281474976710656000000"
  shows "ulid_Timestamp t1 \<le> ulid_Timestamp t2 \<longleftrightarrow> t1 div 1000000 \<le> t2 div 1000000"
proof -
  have "0 \<le> t2 div 1000000"
    using assms(3) by simp
  then have nn: "0 < t1 div 1000000 \<or> 0 \<le> t2 div 1000000" ..
  show ?thesis
    unfolding word_le_nat_alt ulid_Timestamp_in_range(1)[OF assms(1,2)]
      ulid_Timestamp_in_range(1)[OF assms(3,4)]
    using nn by (rule nat_le_eq_zle)
qed

lemma lower_bound_key:
  assumes "0 \<le> from_t" "from_t < 281474976710656000000" "0 \<le> t" "t < 281474976710656000000"
    and "length rest = 18"
  shows "timeBoundKey from_t (CHR 0x00) \<le> time_bytes (ulid_Timestamp t) @ rest
           \<longleftrightarrow> from_t div 1000000 \<le> t div 1000000"
proof -
  note a = ulid_Timestamp_in_range(2)[OF assms(1,2)]
  note b = ulid_Timestamp_in_range(2)[OF assms(3,4)]
  have "time_bytes (ulid_Timestamp t) @ rest < timeBoundKey from_t (CHR 0x00)
          \<longleftrightarrow> time_bytes (ulid_Timestamp t) < time_bytes (ulid_Timestamp from_t)"
    unfolding timeBoundKey_def
    using not_less_zeros[OF assms(5)] by (simp add: lex_append_same_length)
  also have "\<dots> \<longleftrightarrow> ulid_Timestamp t < ulid_Timestamp from_t"
    using time_bytes_order[OF b a] by simp
  finally have "timeBoundKey from_t (CHR 0x00) \<le> time_bytes (ulid_Timestamp t) @ rest
      \<longleftrightarrow> ulid_Timestamp from_t \<le> ulid_Timestamp t"
    by (simp add: not_less[symmetric])
  then show ?thesis
    by (simp add: ulid_Timestamp_le[OF assms(1,2,3,4)])
qed

lemma upper_bound_key:
  assumes "0 \<le> to_t" "to_t < 281474976710656000000" "0 \<le> t" "t < 281474976710656000000"
    and "length rest = 18"
  shows "time_bytes (ulid_Timestamp t) @ rest \<le> timeBoundKey to_t (CHR 0xFF)
           \<longleftrightarrow> t div 1000000 \<le> to_t div 1000000"
proof -
  note a = ulid_Timestamp_in_range(2)[OF assms(1,2)]
  note b = ulid_Timestamp_in_range(2)[OF assms(3,4)]
  have "timeBoundKey to_t (CHR 0xFF) < time_bytes (ulid_Timestamp t) @ rest
          \<longleftrightarrow> time_bytes (ulid_Timestamp to_t) < time_bytes (ulid_Timestamp t)"
    unfolding timeBoundKey_def
    using not_above_ffs[OF assms(5)] by (simp add: lex_append_same_length)
  also have "\<dots> \<longleftrightarrow> ulid_Timestamp to_t < ulid_Timestamp t"
    using time_bytes_order[OF a b] by simp
  finally have "time_bytes (ulid_Timestamp t) @ rest \<le> timeBoundKey to_t (CHR 0xFF)
      \<longleftrightarrow> ulid_Timestamp t \<le> ulid_Timestamp to_t"
    by (simp add: not_less[symmetric])
  then show ?thesis
    by (simp add: ulid_Timestamp_le[OF assms(3,4,1,2)])
qed

lemma time_Format_month: "time_Format t = month_name (month_of t)"
  by (simp add: time_Format_def month_name_def month_of_def time_Year_def time_Month_def)

lemma month_first: "time_Date (time_Year t) (time_Month t) 1 0 0 0 0 = month_start (month_of t) * nsPerDay"
  by (simp add: first_of_month time_Year_def time_Month_def month_of_def)

lemma month_of_first [simp]: "month_of (month_start k * nsPerDay) = k"
  by (simp add: month_of_def nsPerDay_def)

lemma next_month: "time_AddDate (month_start k * nsPerDay) 0 1 0 = month_start (k + 1) * nsPerDay"
proof -
  have z: "month_start k * nsPerDay div nsPerDay = month_start k"
    "month_start k * nsPerDay mod nsPerDay = 0"
    by (simp_all add: nsPerDay_def)
  have k: "12 * (k div 12) + (k mod 12 + 1 + 1 - 1) = k + 1"
    by simp
  show ?thesis
    unfolding time_AddDate_def time_Date_def time_Year_def time_Month_def time_Day_def z
      month_index_month_start k
    by (simp add: nsPerDay_def)
qed

lemma months_loop_eq:
  "months_loop (month_start k * nsPerDay) (month_start k1 * nsPerDay) = map month_name [k..k1]"
proof (induction k k1 rule: upto.induct)
  case (1 i j)
  show ?case
  proof (cases "i \<le> j")
    case True
    then have "\<not> month_start j * nsPerDay < month_start i * nsPerDay"
      using month_start_mono[OF True] by (simp add: nsPerDay_def)
    then show ?thesis
      using 1[OF True] True
      by (subst months_loop.simps, subst upto.simps)
        (simp add: next_month time_Format_month)
  next
    case False
    then have "month_start j < month_start i"
      by (intro month_start_strict_mono) simp
    then have "month_start j * nsPerDay < month_start i * nsPerDay"
      by (simp add: nsPerDay_def)
    then show ?thesis
      using False by (subst months_loop.simps, subst upto.simps) simp
  qed
qed

lemma monthsInRange_eq:
  "monthsInRange from_t to_t = map month_name [month_of from_t..month_of to_t]"
  by (simp add: monthsInRange_def Let_def month_first months_loop_eq)

lemma month_of_mono:
  assumes "t1 div 1000000 \<le> t2 div 1000000"
  shows "month_of t1 \<le> month_of t2"
proof -
  have d: "t div nsPerDay = t div 1000000 div 86400000" for t :: int
    using zdiv_zmult2_eq[of 86400000 t 1000000] by (simp add: nsPerDay_def)
  have "t1 div nsPerDay \<le> t2 div nsPerDay"
    unfolding d using assms by (rule zdiv_mono1) simp
  then show ?thesis
    unfolding month_of_def by (rule month_index_mono)
qed

lemma month_in_window:
  assumes "from_t div 1000000 \<le> t div 1000000" "t div 1000000 \<le> to_t div 1000000"
  shows "time_Format t \<in> set (monthsInRange from_t to_t)"
  using month_of_mono[OF assms(1)] month_of_mono[OF assms(2)]
  by (simp add: monthsInRange_eq time_Format_month)

lemma month_scan_mem:
  "(m, x) \<in> set (concat (map (\<lambda>m. case Bucket outer m of
                                        None \<Rightarrow> []
                                      | Some inner \<Rightarrow> map (Pair m) (f inner)) months))
   \<longleftrightarrow> m \<in> set months \<and> (\<exists>inner. Bucket outer m = Some inner \<and> x \<in> set (f inner))"
  by (induction months) (auto split: option.splits)

lemma window_scan_Cons:
  "window_scan cd ((svc, outer) # r) traceID from_t to_t =
     concat (map (\<lambda>m. case Bucket outer m of
                         None \<Rightarrow> []
                       | Some inner \<Rightarrow>
                           map (Pair m)
                             (window_records cd traceID (timeBoundKey from_t (CHR 0x00))
                                (timeBoundKey to_t (CHR 0xFF)) inner))
               (monthsInRange from_t to_t))
     @ window_scan cd r traceID from_t to_t"
  by (simp add: window_scan_def)

lemma window_scan_records:
  "(m, x) \<in> set (window_scan cd r traceID from_t to_t) \<longleftrightarrow>
     m \<in> set (monthsInRange from_t to_t)
     \<and> (\<exists>svc outer inner. (svc, outer) \<in> set r \<and> Bucket outer m = Some inner
          \<and> x \<in> set (window_records cd traceID (timeBoundKey from_t (CHR 0x00))
                          (timeBoundKey to_t (CHR 0xFF)) inner))"
proof (induction r)
  case Nil
  then show ?case by (simp add: window_scan_def)
next
  case (Cons b r)
  obtain svc outer where b: "b = (svc, outer)" by (cases b)
  show ?case
    unfolding b window_scan_Cons set_append Un_iff month_scan_mem Cons.IH
    by auto
qed

lemma window_scan_mem:
  "(m, k, sp) \<in> set (window_scan cd r traceID from_t to_t) \<longleftrightarrow>
     m \<in> set (monthsInRange from_t to_t)
     \<and> (\<exists>svc outer inner. (svc, outer) \<in> set r \<and> Bucket outer m = Some inner
            \<and> (k, sp) \<in> set (records_of cd inner))
     \<and> timeBoundKey from_t (CHR 0x00) \<le> k \<and> k \<le> timeBoundKey to_t (CHR 0xFF)
     \<and> hex_EncodeToString (TraceId sp) = traceID"
  unfolding window_scan_records window_records_def by auto

lemma GetSpanTree_eq:
  assumes "db s = Some r" "wf_root r"
    and "findSpanByID cd s spanID = (Some anchor, None)"
  shows "GetSpanTree cd s spanID =
     (TraceID anchor,
      map (\<lambda>(m, k, sp). buildSummary cd sp m)
        (window_scan cd r (TraceID anchor)
           (StartTime anchor - 2 * Minute) (StartTime anchor + 2 * Minute)),
      None)"
  by (simp add: GetSpanTree_def assms(3) Let_def scanWindow_eq[OF assms(1,2)])

lemma window_ms:
  "(a - 2 * Minute) div 1000000 = a div 1000000 - 120000"
  "(a + 2 * Minute) div 1000000 = a div 1000000 + 120000"
proof -
  have "a - 2 * Minute = a + (- 120000) * 1000000" "a + 2 * Minute = a + 120000 * 1000000"
    by (simp_all add: Minute_def)
  then show "(a - 2 * Minute) div 1000000 = a div 1000000 - 120000"
    "(a + 2 * Minute) div 1000000 = a div 1000000 + 120000"
    using div_mult_self1[of 1000000 a "- 120000"] div_mult_self1[of 1000000 a 120000]
    by (simp_all del: div_mult_self1 div_mult_self2 div_mult_self3 div_mult_self4)
qed

lemma window_scan_window:
  assumes "2 * Minute \<le> a" "a < 9223372036854775808"
    and "0 \<le> t" "t < 9223372036854775808" "length rest = 18"
  shows "(time_Format t, time_bytes (ulid_Timestamp t) @ rest, sp)
           \<in> set (window_scan cd r traceID (a - 2 * Minute) (a + 2 * Minute))
         \<longleftrightarrow>
         a div 1000000 - 120000 \<le> t div 1000000 \<and> t div 1000000 \<le> a div 1000000 + 120000
         \<and> (\<exists>svc outer inner. (svc, outer) \<in> set r
                \<and> Bucket outer (time_Format t) = Some inner
                \<and> (time_bytes (ulid_Timestamp t) @ rest, sp) \<in> set (records_of cd inner))
         \<and> hex_EncodeToString (TraceId sp) = traceID"
proof -
  have lo: "0 \<le> a - 2 * Minute" "a - 2 * Minute < 281474976710656000000"
    and hi: "0 \<le> a + 2 * Minute" "a + 2 * Minute < 281474976710656000000"
    and t: "t < 281474976710656000000"
    using assms(1,2,4) by (simp_all add: Minute_def)
  note l = lower_bound_key[OF lo assms(3) t assms(5), unfolded window_ms]
  note u = upper_bound_key[OF hi assms(3) t assms(5), unfolded window_ms]
  have m: "time_Format t \<in> set (monthsInRange (a - 2 * Minute) (a + 2 * Minute))"
    if "a div 1000000 - 120000 \<le> t div 1000000" "t div 1000000 \<le> a div 1000000 + 120000"
    using that by (intro month_in_window) (simp_all add: window_ms)
  show ?thesis
    unfolding window_scan_mem l u using m by blast
qed

lemma t_format_1970:
  "time_Format 60000000000 = ''1970-01''" "time_Format 180000000000 = ''1970-01''"
  by (simp_all add: time_eval char_eval)

lemma early_write:
  "WriteResourceSpans plain_codec early_batch example_env empty_store
   = (None, example_env\<lparr>entropy := []\<rparr>, early_store)"
  by (simp add: WriteResourceSpans_def write_tx_def serviceName_def
      tx_CreateBucketIfNotExists_def CreateBucketIfNotExists_def Put_def
      MaxKeySize_def MaxValueSize_def spanStartTime_def t_format_1970
      key_eval codec_eval char_eval example_value_def
      example_env_def example_span_def example_rs_def empty_store_def early_batch_def
      early_store_def)

lemma from_be_early: "from_be (be64 60000000000) = 60000000000"
  by (simp add: from_be_def key_eval char_eval)

lemma early_anchor:
  "findSpanByID plain_codec early_store ''span0001'' =
     (Some (buildSummary plain_codec
        \<lparr>TraceId = ''TTTTTTTTTTTTTTTT'', SpanId = ''span0001'', ParentSpanId = [], Name = [],
         StartTimeUnixNano = 60000000000, EndTimeUnixNano = 0, Status = None\<rparr> ''1970-01''), None)"
  by (simp add: findSpanByID_def early_store_def Bucket_def decode_example from_be_early
      time_bytes_def)

lemma months_before_epoch:
  "monthsInRange (- 60000000000) 180000000000 = [''1969-12'', ''1970-01'']"
  by (simp add: monthsInRange_def months_loop.simps time_AddDate_def time_eval char_eval)

lemma lo_before_epoch:
  "timeBoundKey (- 60000000000) (CHR 0x00)
     = [CHR 0xFF, CHR 0xFF, CHR 0xFF, CHR 0xFF, CHR 0x15, CHR 0xA0] @ replicate 18 (CHR 0x00)"
  by (simp add: timeBoundKey_def time_bytes_def ulid_Timestamp_def byte_def drop_bit_eq_div
      char_eval)

lemma t_format_window:
  "time_Format 1771502520000000000 = ''2026-02''"
  "time_Format 1771502280000000000 = ''2026-02''"
  "time_Format 1771502520001000000 = ''2026-02''"
  "time_Format 1771502279999000000 = ''2026-02''"
  by (simp_all add: time_eval char_eval)

lemma window_write:
  "WriteResourceSpans plain_codec window_batch window_env empty_store
   = (None, window_env\<lparr>entropy := []\<rparr>, window_store)"
  by (simp add: WriteResourceSpans_def write_tx_def serviceName_def
      tx_CreateBucketIfNotExists_def CreateBucketIfNotExists_def Put_def
      MaxKeySize_def MaxValueSize_def spanStartTime_def t_format t_format_window
      key_eval codec_eval char_eval example_value_def
      window_env_def example_span_def example_rs_def empty_store_def window_batch_def
      window_store_def)

lemma window_anchor:
  "findSpanByID plain_codec window_store ''span0001'' =
     (Some (buildSummary plain_codec
        \<lparr>TraceId = ''TTTTTTTTTTTTTTTT'', SpanId = ''span0001'', ParentSpanId = [], Name = [],
         StartTimeUnixNano = 1771502400000000000, EndTimeUnixNano = 0, Status = None\<rparr>
        ''2026-02''), None)"
  by (simp add: findSpanByID_def window_store_def Bucket_def decode_example from_be_be64
      time_bytes_def)

lemma window_months:
  "monthsInRange 1771502280000000000 1771502520000000000 = [''2026-02'']"
  by (simp add: monthsInRange_def months_loop.simps time_AddDate_def time_eval char_eval)

lemma replicate_18:
  "replicate 18 c = [c, c, c, c, c, c, c, c, c, c, c, c, c, c, c, c, c, c]"
  by (simp add: numeral_eq_Suc)

lemma window_example:
  "map SpanID (fst (snd (GetSpanTree plain_codec window_store ''span0001'')))
     = map hex_EncodeToString [''span0003'', ''span0001'', ''span0002'']"
  by (simp add: GetSpanTree_def window_anchor buildSummary_def Minute_def scanWindow_def
      window_months hex_T Let_def)
    (simp add: window_store_def window_months Bucket_def Seek_def timeBoundKey_def key_eval
      char_eval decode_example buildSummary_def hex_T replicate_18)

text \<open>
  Claim C2. The window scan of \<open>GetSpanTree\<close> is to return every span of the anchor's trace
  whose start time is within two minutes of the anchor's, both bounds included and to the
  millisecond. For an anchor from two minutes after the epoch on it does
  (\<open>GetSpanTree_eq\<close>, \<open>window_scan_window\<close>, and \<open>window_example\<close> above). For an anchor
  that starts less than two minutes after the epoch it does not: the lower bound of the
  window is before the epoch, \<open>ulid_Timestamp\<close> wraps
  around, the lower bound key starts with \<open>FF FF FF FF\<close> and \<open>Seek\<close> runs past every
  record. Below, an anchor at 00:01:00 and its peer at 00:03:00, exactly two minutes later,
  are written to the empty store; \<open>GetSpanTree\<close> of the anchor finds the trace and returns
  no span, neither the peer nor the anchor itself.
\<close>
theorem GetSpanTree_anchor_near_epoch:
  "WriteResourceSpans plain_codec early_batch example_env empty_store
     = (None, example_env\<lparr>entropy := []\<rparr>, early_store)
   \<and> GetSpanTree plain_codec early_store ''span0001''
     = (hex_EncodeToString ''TTTTTTTTTTTTTTTT'', [], None)"
  by (simp add: early_write GetSpanTree_def early_anchor buildSummary_def Minute_def
      scanWindow_def months_before_epoch lo_before_epoch Let_def)
    (simp add: early_store_def months_before_epoch lo_before_epoch Bucket_def Seek_def
      time_bytes_def byte_def drop_bit_eq_div char_eval)

text \<open>
  The anchor search on the store that holds the record of \<open>span0001\<close>: identifiers of
  nine and of seven bytes find nothing, the identifier of eight bytes finds the trace.
\<close>

lemma example_anchor:
  "findSpanByID plain_codec example_store ''span0001'' =
     (Some (buildSummary plain_codec
        \<lparr>TraceId = ''TTTTTTTTTTTTTTTT'', SpanId = ''span0001'', ParentSpanId = [], Name = [],
         StartTimeUnixNano = 1771502400000000000, EndTimeUnixNano = 0, Status = None\<rparr>
        ''2026-02''), None)"
  by (simp add: findSpanByID_def example_store_def Bucket_def codec_eval from_be_be64
      time_bytes_def)

theorem GetSpanTree_wrong_length_witness:
  "GetSpanTree plain_codec example_store ''span00010'' = ([], [], None)
   \<and> GetSpanTree plain_codec example_store ''span000'' = ([], [], None)
   \<and> fst (GetSpanTree plain_codec example_store ''span0001'')
     = ''54545454545454545454545454545454''
   \<and> (\<exists>k src'. makeKey 1771502400000000000 ''span0001'' ''0123456789'' = Inr (k, src')
         \<and> length k = 24 \<and> length (drop 16 k) = 8)"
proof -
  have d: "db example_store = Some (the (db example_store))"
    by (simp add: example_store_def)
  have m: "makeKey 1771502400000000000 ''span0001'' ''0123456789''
      = Inr (time_bytes (ulid_Timestamp 1771502400000000000) @ ''0123456789'' @ ''span0001'', [])"
    by (simp add: makeKey_def ulid_New_def io_ReadFull_def ulid_Timestamp_def maxTime_def)
  have f: "fst (GetSpanTree plain_codec example_store ''span0001'')
      = ''54545454545454545454545454545454''"
    by (simp add: GetSpanTree_def example_anchor Let_def case_prod_unfold buildSummary_def hex_T)
  show ?thesis
    using GetSpanTree_wrong_length
      [OF d, of "''span00010''" plain_codec 1771502400000000000 "''span0001''" "''0123456789''"
          "time_bytes (ulid_Timestamp 1771502400000000000) @ ''0123456789'' @ ''span0001''" "[]"]
      GetSpanTree_wrong_length
      [OF d, of "''span000''" plain_codec 1771502400000000000 "''span0001''" "''0123456789''"
          "time_bytes (ulid_Timestamp 1771502400000000000) @ ''0123456789'' @ ''span0001''" "[]"]
      m f
    by simp
qed

subsection \<open>Service name\<close>

lemma serviceName_no_resource: "Resource rs = None \<Longrightarrow> serviceName rs = ''unknown''"
  by (simp add: serviceName_def)

lemma serviceName_attrs_missing:
  "\<forall>a \<in> set attrs. Key a \<noteq> ''service.name'' \<Longrightarrow> serviceName_attrs attrs = ''unknown''"
  by (induction attrs) auto

text \<open>
  C6. The service partition name is meant to be the \<^verbatim>\<open>service.name\<close> attribute's value or
  the literal \<^verbatim>\<open>unknown\<close>, never another name such as the empty string. For a resource
  whose \<^verbatim>\<open>service.name\<close> attribute carries an integer the function returns the empty
  string: neither the attribute's value nor \<^verbatim>\<open>unknown\<close>.
\<close>

theorem serviceName_non_string_attribute_is_empty:
  "serviceName \<lparr>Resource = Some \<lparr>Attributes =
       [\<lparr>Key = ''service.name'', Value = Some (IntValue 7)\<rparr>]\<rparr>,
     ScopeSpans = [], SchemaUrl = []\<rparr> = []"
  by (simp add: serviceName_def)

end
